theory Spec2Isabelle
  imports Main "HOL-Library.Multiset"
begin

section \<open>Values that come from outside the repository\<close>

text \<open>
  The three source files \<^verbatim>\<open>bookmark.ts\<close>, \<^verbatim>\<open>bookmarkGroup.ts\<close> and \<^verbatim>\<open>bookmarkManager.ts\<close>
  use the editor's \<^verbatim>\<open>Uri\<close>, JavaScript's \<^verbatim>\<open>Date\<close>, the clock and the random number
  generator. None of them is code of the repository; each is given here the smallest
  model that keeps what the three files rely on.
\<close>

datatype error = TypeError | UriError | SyntaxError | ExternalOperationFailed

text \<open>
  \<^verbatim>\<open>vscode.Uri\<close> belongs to the editor. A locator is kept as its canonical string, the
  one \<^verbatim>\<open>uri.toString()\<close> returns. The serialized \<^verbatim>\<open>uri\<close> is a text, and the model keeps
  what \<^verbatim>\<open>Uri.parse\<close> makes of it: \<open>Locator s\<close> is a text the parse reads, \<open>s\<close> being
  the canonical string of the Uri it returns; \<open>Unparsable s\<close> is a text on which it
  throws (an illegal scheme, say). \<^verbatim>\<open>fromJSON\<close> does not test whether \<^verbatim>\<open>data.uri\<close> is
  there: an absent property reaches \<^verbatim>\<open>Uri.parse\<close> as \<^verbatim>\<open>undefined\<close>, which the non-strict
  parse reads as the text \<^verbatim>\<open>undefined\<close> and returns the Uri \<^verbatim>\<open>file:///undefined\<close>.
\<close>

datatype uri = Uri (uri_toString: string)

datatype uri_text = Locator string | Unparsable string

fun Uri_parse :: "uri_text option \<Rightarrow> error + uri" where
  "Uri_parse None = Inr (Uri ''file:///undefined'')"
| "Uri_parse (Some (Locator s)) = Inr (Uri s)"
| "Uri_parse (Some (Unparsable s)) = Inl UriError"

text \<open>
  Modelled from the spec: \<^verbatim>\<open>path.basename(uri.fsPath)\<close>, the locator's base file name.
  The model takes the last segment of the canonical string, trailing slashes dropped.
\<close>

definition fsPath :: "uri \<Rightarrow> string" where
  "fsPath u = uri_toString u"

definition basename :: "string \<Rightarrow> string" where
  "basename p =
     rev (takeWhile (\<lambda>c. c \<noteq> CHR ''/'') (dropWhile (\<lambda>c. c = CHR ''/'') (rev p)))"

text \<open>
  A \<^verbatim>\<open>Date\<close> is its time value in milliseconds. The serialized \<^verbatim>\<open>createdAt\<close> is the
  ISO-8601 text of a time value; the model keeps the time the text denotes and not its
  characters, so \<^verbatim>\<open>new Date(text)\<close> reads back what \<^verbatim>\<open>toISOString\<close> wrote. An
  \<^verbatim>\<open>Invalid Date\<close> is outside the model: the data model's \<^verbatim>\<open>createdAt\<close> is a
  timestamp.
\<close>

datatype date = Date (getTime: int)

datatype iso8601 = ISO int

fun toISOString :: "date \<Rightarrow> iso8601" where
  "toISOString (Date t) = ISO t"

fun Date_new :: "iso8601 \<Rightarrow> date" where
  "Date_new (ISO t) = Date t"

text \<open>
  What one constructor call reads from its surroundings: \<^verbatim>\<open>Date.now()\<close>, the value of
  \<^verbatim>\<open>Math.floor(Math.random() * 1000)\<close>, and the time \<^verbatim>\<open>new Date()\<close> takes.
\<close>

record env =
  date_now :: nat
  math_random_1000 :: nat
  new_date :: int

definition digit :: "nat \<Rightarrow> char" where
  "digit d = ''0123456789'' ! d"

function decimal :: "nat \<Rightarrow> string" where
  "decimal n = (if n < 10 then [digit n] else decimal (n div 10) @ [digit (n mod 10)])"
  by pat_completeness auto
termination
  by (relation "measure (\<lambda>n. n)") auto

declare decimal.simps [simp del]

section \<open>Bookmark (bookmark.ts)\<close>

record bookmark =
  b_id :: string
  b_uri :: uri
  b_name :: string
  b_description :: string
  b_createdAt :: date

text \<open>
  The \<^verbatim>\<open>data: any\<close> that \<^verbatim>\<open>fromJSON\<close> receives. A property has the type of the field
  it initialises. The properties the constructor takes as optional parameters, and
  \<^verbatim>\<open>uri\<close>, may be absent (\<open>None\<close> is JavaScript's \<^verbatim>\<open>undefined\<close>).
\<close>

record bookmark_json =
  j_id :: string
  j_uri :: "uri_text option"
  j_name :: "string option"
  j_description :: "string option"
  j_createdAt :: iso8601

text \<open>\<^verbatim>\<open>name || path.basename(uri.fsPath)\<close>: an absent or empty name is falsy.\<close>

definition Bookmark_new :: "env \<Rightarrow> uri \<Rightarrow> string option \<Rightarrow> string option \<Rightarrow> bookmark" where
  "Bookmark_new e u name description =
     \<lparr> b_id = ''bookmark-'' @ decimal (date_now e) @ ''-'' @ decimal (math_random_1000 e),
       b_uri = u,
       b_name = (case name of
                   None \<Rightarrow> basename (fsPath u)
                 | Some n \<Rightarrow> if n = [] then basename (fsPath u) else n),
       b_description = (case description of None \<Rightarrow> [] | Some d \<Rightarrow> d),
       b_createdAt = Date (new_date e) \<rparr>"

definition Bookmark_toJSON :: "bookmark \<Rightarrow> bookmark_json" where
  "Bookmark_toJSON b =
     \<lparr> j_id = b_id b,
       j_uri = Some (Locator (uri_toString (b_uri b))),
       j_name = Some (b_name b),
       j_description = Some (b_description b),
       j_createdAt = toISOString (b_createdAt b) \<rparr>"

definition Bookmark_fromJSON :: "env \<Rightarrow> bookmark_json \<Rightarrow> error + bookmark" where
  "Bookmark_fromJSON e data =
     (case Uri_parse (j_uri data) of
        Inl err \<Rightarrow> Inl err
      | Inr u \<Rightarrow>
          Inr ((Bookmark_new e u (j_name data) (j_description data))
                 \<lparr> b_id := j_id data, b_createdAt := Date_new (j_createdAt data) \<rparr>))"

subsection \<open>Opening a bookmark\<close>

text \<open>
  The editor is a collaborator: \<^verbatim>\<open>openTextDocument\<close> and \<^verbatim>\<open>showTextDocument\<close> are
  parameters, each either failing or returning. What the code does to the outside is
  written to a list, oldest first.
\<close>

record editor =
  openTextDocument :: "uri \<Rightarrow> error + uri"
  showTextDocument :: "uri \<Rightarrow> error + uri"

datatype ui_effect =
    OpenTextDocument uri
  | ShowTextDocument uri
  | UiShowErrorMessage string
  | UiConsoleError string

text \<open>
  \<^verbatim>\<open>open\<close> returns the editor shown, or \<^verbatim>\<open>undefined\<close> (\<open>None\<close>) from its
  \<^verbatim>\<open>catch\<close>. The result is a sum so that a caller that awaits it has a branch for a
  rejected promise.
\<close>

definition Bookmark_open :: "editor \<Rightarrow> bookmark \<Rightarrow> (error + uri option) \<times> ui_effect list" where
  "Bookmark_open ed b =
     (let failed = [UiShowErrorMessage (''Failed to open bookmark: '' @ b_name b),
                    UiConsoleError ''Failed to open bookmark:'']
      in case openTextDocument ed (b_uri b) of
           Inl err \<Rightarrow> (Inr None, OpenTextDocument (b_uri b) # failed)
         | Inr document \<Rightarrow>
             (case showTextDocument ed document of
                Inl err \<Rightarrow>
                  (Inr None, [OpenTextDocument (b_uri b), ShowTextDocument document] @ failed)
              | Inr shown \<Rightarrow>
                  (Inr (Some shown), [OpenTextDocument (b_uri b), ShowTextDocument document])))"

section \<open>BookmarkGroup (bookmarkGroup.ts)\<close>

text \<open>
  A group owns its bookmarks and its child groups, so a group is a tree. \<^verbatim>\<open>parent\<close> is
  a reference back to the owning group; in a tree of values it is kept as the id of that
  group, \<open>None\<close> for \<^verbatim>\<open>undefined\<close>.
\<close>

datatype group =
  BookmarkGroup (g_id: string) (g_name: string) (g_description: string)
    (g_bookmarks: "bookmark list") (g_groups: "group list")
    (g_parent: "string option") (g_createdAt: date)

datatype group_json =
  GroupJSON (gj_id: string) (gj_name: string) (gj_description: "string option")
    (gj_bookmarks: "bookmark_json list option") (gj_groups: "group_json list option")
    (gj_createdAt: iso8601)

fun set_bookmarks :: "bookmark list \<Rightarrow> group \<Rightarrow> group" where
  "set_bookmarks bs' (BookmarkGroup i n d bs gs p c) = BookmarkGroup i n d bs' gs p c"

fun set_groups :: "group list \<Rightarrow> group \<Rightarrow> group" where
  "set_groups gs' (BookmarkGroup i n d bs gs p c) = BookmarkGroup i n d bs gs' p c"

fun set_parent :: "string option \<Rightarrow> group \<Rightarrow> group" where
  "set_parent p' (BookmarkGroup i n d bs gs p c) = BookmarkGroup i n d bs gs p' c"




definition Group_addBookmark :: "bookmark \<Rightarrow> group \<Rightarrow> group" where
  "Group_addBookmark b g =
     (if \<not> list_ex (\<lambda>x. b_id x = b_id b) (g_bookmarks g)
      then set_bookmarks (g_bookmarks g @ [b]) g else g)"

definition Group_removeBookmark :: "string \<Rightarrow> group \<Rightarrow> bool \<times> group" where
  "Group_removeBookmark i g =
     (let initialLength = length (g_bookmarks g);
          g' = set_bookmarks (filter (\<lambda>b. b_id b \<noteq> i) (g_bookmarks g)) g
      in (initialLength \<noteq> length (g_bookmarks g'), g'))"


definition Group_removeGroup :: "string \<Rightarrow> group \<Rightarrow> bool \<times> group" where
  "Group_removeGroup i g =
     (let initialLength = length (g_groups g);
          g' = set_groups (filter (\<lambda>c. g_id c \<noteq> i) (g_groups g)) g
      in (initialLength \<noteq> length (g_groups g'), g'))"

definition Group_isEmpty :: "group \<Rightarrow> bool" where
  "Group_isEmpty g = (length (g_bookmarks g) = 0 \<and> length (g_groups g) = 0)"

fun Group_getAllBookmarks :: "group \<Rightarrow> bookmark list" where
  "Group_getAllBookmarks (BookmarkGroup i n d bs gs p c) =
     bs @ concat (map Group_getAllBookmarks gs)"

text \<open>\<^verbatim>\<open>openAll\<close>: one \<^verbatim>\<open>await bookmark.open()\<close> after the other, no \<^verbatim>\<open>try\<close> around it.\<close>

fun openAll_loop :: "editor \<Rightarrow> bookmark list \<Rightarrow> (error + unit) \<times> ui_effect list" where
  "openAll_loop ed [] = (Inr (), [])"
| "openAll_loop ed (b # bs) =
     (case Bookmark_open ed b of
        (Inl err, evs) \<Rightarrow> (Inl err, evs)
      | (Inr shown, evs) \<Rightarrow>
          (case openAll_loop ed bs of (r, rest) \<Rightarrow> (r, evs @ rest)))"

definition Group_openAll :: "editor \<Rightarrow> group \<Rightarrow> (error + unit) \<times> ui_effect list" where
  "Group_openAll ed g = openAll_loop ed (g_bookmarks g)"

fun Group_toJSON :: "group \<Rightarrow> group_json" where
  "Group_toJSON (BookmarkGroup i n d bs gs p c) =
     GroupJSON i n (Some d) (Some (map Bookmark_toJSON bs)) (Some (map Group_toJSON gs))
       (toISOString c)"

text \<open>\<^verbatim>\<open>Array.prototype.map\<close> with a callback that may throw: the first failure ends it.\<close>

fun mapE :: "('a \<Rightarrow> error + 'b) \<Rightarrow> 'a list \<Rightarrow> error + 'b list" where
  "mapE f [] = Inr []"
| "mapE f (x # xs) =
     (case f x of
        Inl err \<Rightarrow> Inl err
      | Inr y \<Rightarrow> (case mapE f xs of Inl err \<Rightarrow> Inl err | Inr ys \<Rightarrow> Inr (y # ys)))"

text \<open>
  \<^verbatim>\<open>fromJSON\<close>: \<^verbatim>\<open>data.bookmarks.map\<close> and \<^verbatim>\<open>data.groups.map\<close> throw a TypeError on an
  absent property. \<open>fromJSON_children\<close> is the callback of \<^verbatim>\<open>data.groups.map\<close> run over
  the array: it deserializes a child and points its parent at the group being built.
\<close>

fun Group_fromJSON :: "env \<Rightarrow> group_json \<Rightarrow> error + group"
  and fromJSON_children :: "env \<Rightarrow> string \<Rightarrow> group_json list \<Rightarrow> error + group list" where
  "Group_fromJSON e (GroupJSON i n d None gs c) = Inl TypeError"
| "Group_fromJSON e (GroupJSON i n d (Some bs) None c) =
     (case mapE (Bookmark_fromJSON e) bs of
        Inl err \<Rightarrow> Inl err
      | Inr bookmarks \<Rightarrow> Inl TypeError)"
| "Group_fromJSON e (GroupJSON i n d (Some bs) (Some gs) c) =
     (case mapE (Bookmark_fromJSON e) bs of
        Inl err \<Rightarrow> Inl err
      | Inr bookmarks \<Rightarrow>
          (case fromJSON_children e i gs of
             Inl err \<Rightarrow> Inl err
           | Inr children \<Rightarrow>
               Inr (BookmarkGroup i n (case d of None \<Rightarrow> [] | Some x \<Rightarrow> x)
                      bookmarks children None (Date_new c))))"
| "fromJSON_children e parent [] = Inr []"
| "fromJSON_children e parent (groupData # rest) =
     (case Group_fromJSON e groupData of
        Inl err \<Rightarrow> Inl err
      | Inr childGroup \<Rightarrow>
          (case fromJSON_children e parent rest of
             Inl err \<Rightarrow> Inl err
           | Inr children \<Rightarrow> Inr (set_parent (Some parent) childGroup # children)))"

section \<open>BookmarkManager (bookmarkManager.ts)\<close>

subsection \<open>State, references into the forest, effects\<close>

text \<open>
  The stored document, and what the manager does to the outside: firing the change
  event, writing the document, flagging it for sync, logging, telling the user. The
  event has no payload; its entry records the forest as a listener finds it when it
  queries the manager on receipt.
\<close>

record doc =
  d_bookmarks :: "bookmark_json list option"
  d_groups :: "group_json list option"

datatype effect =
    Fire "bookmark list" "group list"
  | GlobalStateUpdate doc
  | SetKeysForSync
  | ConsoleError string
  | ShowErrorMessage string

record manager =
  groups :: "group list"
  bookmarks :: "bookmark list"
  trace :: "effect list"
  globalState :: "doc option"
  syncEnabled :: bool

text \<open>
  The code hands group objects around by reference and writes to them in place. The
  forest is a tree, so a reference is the place of the object in it: the indices that
  lead from the root array down to the group. \<open>deref\<close> reads the object at a place,
  \<open>modify\<close> writes to it.
\<close>

type_synonym ref = "nat list"

fun deref :: "group list \<Rightarrow> ref \<Rightarrow> group option" where
  "deref gs [] = None"
| "deref gs [k] = (if k < length gs then Some (gs ! k) else None)"
| "deref gs (k # q # p) =
     (if k < length gs then deref (g_groups (gs ! k)) (q # p) else None)"

fun modify :: "ref \<Rightarrow> (group \<Rightarrow> group) \<Rightarrow> group list \<Rightarrow> group list" where
  "modify [] f gs = gs"
| "modify [k] f gs = (if k < length gs then gs[k := f (gs ! k)] else gs)"
| "modify (k # q # p) f gs =
     (if k < length gs
      then gs[k := set_groups (modify (q # p) f (g_groups (gs ! k))) (gs ! k)]
      else gs)"

text \<open>The elements of an array with their places, and a place seen from one level up.\<close>

fun indexed :: "nat \<Rightarrow> group list \<Rightarrow> (ref \<times> group) list" where
  "indexed k [] = []"
| "indexed k (g # gs) = ([k], g) # indexed (Suc k) gs"

definition nested_under :: "nat \<Rightarrow> ref \<times> group \<Rightarrow> ref \<times> group" where
  "nested_under k r = (k # fst r, snd r)"

subsection \<open>Queries\<close>

text \<open>
  \<^verbatim>\<open>getAllGroupsRecursive\<close> copies the children, then appends what each child yields;
  \<open>getAllGroups_loop\<close> is its \<^verbatim>\<open>for\<close> loop, and the same loop runs over the roots in
  \<^verbatim>\<open>getAllGroups\<close>.
\<close>

fun getAllGroupsRecursive :: "group \<Rightarrow> (ref \<times> group) list"
  and getAllGroups_loop :: "nat \<Rightarrow> group list \<Rightarrow> (ref \<times> group) list" where
  "getAllGroupsRecursive (BookmarkGroup i n d bs gs p c) =
     indexed 0 gs @ getAllGroups_loop 0 gs"
| "getAllGroups_loop k [] = []"
| "getAllGroups_loop k (childGroup # rest) =
     map (nested_under k) (getAllGroupsRecursive childGroup) @ getAllGroups_loop (Suc k) rest"

definition getAllGroups :: "manager \<Rightarrow> (ref \<times> group) list" where
  "getAllGroups m = indexed 0 (groups m) @ getAllGroups_loop 0 (groups m)"

definition getAllBookmarks :: "manager \<Rightarrow> bookmark list" where
  "getAllBookmarks m = bookmarks m @ concat (map (\<lambda>r. g_bookmarks (snd r)) (getAllGroups m))"

text \<open>
  \<^verbatim>\<open>findGroupByIdRecursive\<close>, with \<open>findGroupById_loop\<close> for its \<^verbatim>\<open>for\<close> loop over the
  children; \<^verbatim>\<open>findGroupById\<close> runs the same loop over the roots after
  \<^verbatim>\<open>this.groups.find\<close>, here \<open>find_root\<close>.
\<close>

fun findGroupByIdRecursive :: "group \<Rightarrow> string \<Rightarrow> (ref \<times> group) option"
  and findGroupById_loop :: "nat \<Rightarrow> group list \<Rightarrow> string \<Rightarrow> (ref \<times> group) option" where
  "findGroupByIdRecursive (BookmarkGroup i n d bs gs p c) ident =
     (if i = ident then Some ([], BookmarkGroup i n d bs gs p c)
      else findGroupById_loop 0 gs ident)"
| "findGroupById_loop k [] ident = None"
| "findGroupById_loop k (childGroup # rest) ident =
     (case findGroupByIdRecursive childGroup ident of
        Some result \<Rightarrow> Some (nested_under k result)
      | None \<Rightarrow> findGroupById_loop (Suc k) rest ident)"

fun find_root :: "nat \<Rightarrow> group list \<Rightarrow> string \<Rightarrow> (ref \<times> group) option" where
  "find_root k [] ident = None"
| "find_root k (g # gs) ident =
     (if g_id g = ident then Some ([k], g) else find_root (Suc k) gs ident)"

definition findGroupById :: "manager \<Rightarrow> string \<Rightarrow> (ref \<times> group) option" where
  "findGroupById m ident =
     (case find_root 0 (groups m) ident of
        Some grp \<Rightarrow> Some grp
      | None \<Rightarrow> findGroupById_loop 0 (groups m) ident)"

fun findBookmarkById_loop :: "(ref \<times> group) list \<Rightarrow> string \<Rightarrow> bookmark option" where
  "findBookmarkById_loop [] ident = None"
| "findBookmarkById_loop (r # rest) ident =
     (case find (\<lambda>b. b_id b = ident) (g_bookmarks (snd r)) of
        Some bookmark \<Rightarrow> Some bookmark
      | None \<Rightarrow> findBookmarkById_loop rest ident)"

definition findBookmarkById :: "manager \<Rightarrow> string \<Rightarrow> bookmark option" where
  "findBookmarkById m ident =
     (case find (\<lambda>b. b_id b = ident) (bookmarks m) of
        Some bookmark \<Rightarrow> Some bookmark
      | None \<Rightarrow> findBookmarkById_loop (getAllGroups m) ident)"

subsection \<open>Notification and persistence\<close>

definition fire :: "manager \<Rightarrow> manager" where
  "fire m = m\<lparr> trace := trace m @ [Fire (bookmarks m) (groups m)] \<rparr>"

definition exportData :: "manager \<Rightarrow> doc" where
  "exportData m =
     \<lparr> d_bookmarks = Some (map Bookmark_toJSON (bookmarks m)),
       d_groups = Some (map Group_toJSON (groups m)) \<rparr>"

definition saveState :: "manager \<Rightarrow> manager" where
  "saveState m =
     (let data = exportData m
      in m\<lparr> globalState := Some data,
            trace := trace m @ [GlobalStateUpdate data]
                       @ (if syncEnabled m then [SetKeysForSync] else []) \<rparr>)"

subsection \<open>Mutations\<close>

text \<open>\<^verbatim>\<open>if (groupId)\<close>: an absent or empty id is falsy.\<close>

definition truthy :: "string option \<Rightarrow> bool" where
  "truthy s = (case s of None \<Rightarrow> False | Some x \<Rightarrow> x \<noteq> [])"

definition addBookmark ::
  "env \<Rightarrow> uri \<Rightarrow> string option \<Rightarrow> string option \<Rightarrow> string option \<Rightarrow> manager
     \<Rightarrow> bookmark \<times> manager" where
  "addBookmark e u name description groupId m =
     (let bookmark = Bookmark_new e u name description;
          m1 = (if truthy groupId
                then (case findGroupById m (the groupId) of
                        Some grp \<Rightarrow>
                          m\<lparr> groups := modify (fst grp) (Group_addBookmark bookmark) (groups m) \<rparr>
                      | None \<Rightarrow> m\<lparr> bookmarks := bookmarks m @ [bookmark] \<rparr>)
                else m\<lparr> bookmarks := bookmarks m @ [bookmark] \<rparr>)
      in (bookmark, saveState (fire m1)))"

text \<open>
  The loops of \<^verbatim>\<open>removeBookmark\<close> and \<^verbatim>\<open>removeGroup\<close> call the group's own method on
  each group of \<^verbatim>\<open>getAllGroups()\<close> and stop at the first that returns true. A call that
  returns false has replaced the array by an equal one, so the object is as it was read.
\<close>

fun removeBookmark_loop :: "(ref \<times> group) list \<Rightarrow> string \<Rightarrow> group list \<Rightarrow> bool \<times> group list" where
  "removeBookmark_loop [] ident gs = (False, gs)"
| "removeBookmark_loop (r # rest) ident gs =
     (if fst (Group_removeBookmark ident (snd r))
      then (True, modify (fst r) (\<lambda>g. snd (Group_removeBookmark ident g)) gs)
      else removeBookmark_loop rest ident gs)"

definition removeBookmark :: "string \<Rightarrow> manager \<Rightarrow> bool \<times> manager" where
  "removeBookmark ident m =
     (let initialLength = length (bookmarks m);
          m1 = m\<lparr> bookmarks := filter (\<lambda>b. b_id b \<noteq> ident) (bookmarks m) \<rparr>;
          removed = (initialLength \<noteq> length (bookmarks m1));
          (removed', gs') = (if \<not> removed
                             then removeBookmark_loop (getAllGroups m1) ident (groups m1)
                             else (removed, groups m1));
          m2 = m1\<lparr> groups := gs' \<rparr>
      in if removed' then (removed', saveState (fire m2)) else (removed', m2))"


fun removeGroup_loop :: "(ref \<times> group) list \<Rightarrow> string \<Rightarrow> group list \<Rightarrow> bool \<times> group list" where
  "removeGroup_loop [] ident gs = (False, gs)"
| "removeGroup_loop (r # rest) ident gs =
     (if fst (Group_removeGroup ident (snd r))
      then (True, modify (fst r) (\<lambda>g. snd (Group_removeGroup ident g)) gs)
      else removeGroup_loop rest ident gs)"

definition removeGroup :: "string \<Rightarrow> manager \<Rightarrow> bool \<times> manager" where
  "removeGroup ident m =
     (let initialLength = length (groups m);
          m1 = m\<lparr> groups := filter (\<lambda>g. g_id g \<noteq> ident) (groups m) \<rparr>;
          removed = (initialLength \<noteq> length (groups m1));
          (removed', gs') = (if \<not> removed
                             then removeGroup_loop (getAllGroups m1) ident (groups m1)
                             else (removed, groups m1));
          m2 = m1\<lparr> groups := gs' \<rparr>
      in if removed' then (removed', saveState (fire m2)) else (removed', m2))"


definition moveBookmarkToGroup :: "string \<Rightarrow> string \<Rightarrow> manager \<Rightarrow> bool \<times> manager" where
  "moveBookmarkToGroup bookmarkId targetGroupId m =
     (case findBookmarkById m bookmarkId of
        None \<Rightarrow> (False, m)
      | Some bookmark \<Rightarrow>
          (case findGroupById m targetGroupId of
             None \<Rightarrow> (False, m)
           | Some targetGroup \<Rightarrow>
               (let m1 = snd (removeBookmark bookmarkId m);
                    m2 = m1\<lparr> groups := modify (fst targetGroup) (Group_addBookmark bookmark)
                                         (groups m1) \<rparr>
                in (True, saveState (fire m2)))))"

subsection \<open>Import and restore\<close>





definition load_failed :: "manager \<Rightarrow> manager" where
  "load_failed m =
     m\<lparr> trace := trace m @
          [ConsoleError ''Failed to load bookmarks state:'',
           ShowErrorMessage ''Failed to load bookmarks. State may be corrupted.''] \<rparr>"

definition loadState :: "env \<Rightarrow> manager \<Rightarrow> manager" where
  "loadState e m =
     (case globalState m of
        None \<Rightarrow> m
      | Some data \<Rightarrow>
          (case (case d_bookmarks data of
                   Some bs \<Rightarrow>
                     (case mapE (Bookmark_fromJSON e) bs of
                        Inl err \<Rightarrow> Inl err
                      | Inr loaded \<Rightarrow> Inr (m\<lparr> bookmarks := loaded \<rparr>))
                 | None \<Rightarrow> Inr m) of
             Inl err \<Rightarrow> load_failed m
           | Inr m1 \<Rightarrow>
               (case d_groups data of
                  Some gs \<Rightarrow>
                    (case mapE (Group_fromJSON e) gs of
                       Inl err \<Rightarrow> load_failed m1
                     | Inr loaded \<Rightarrow> m1\<lparr> groups := loaded \<rparr>)
                | None \<Rightarrow> m1)))"

text \<open>The constructor: an empty forest, then \<^verbatim>\<open>loadState\<close> from the extension context.\<close>

definition BookmarkManager_new :: "env \<Rightarrow> doc option \<Rightarrow> bool \<Rightarrow> manager" where
  "BookmarkManager_new e stored sync =
     loadState e \<lparr> groups = [], bookmarks = [], trace = [],
                  globalState = stored, syncEnabled = sync \<rparr>"

section \<open>Observations and sample data for the statements\<close>

text \<open>The locators \<^verbatim>\<open>openTextDocument\<close> was called with, in the order of the calls.\<close>

fun opened :: "ui_effect list \<Rightarrow> uri list" where
  "opened [] = []"
| "opened (OpenTextDocument u # rest) = u # opened rest"
| "opened (x # rest) = opened rest"

text \<open>
  An editor that cannot open one file, an editor that opens every document and can show
  none, and a group holding that file and another.
\<close>

definition missing_editor :: editor where
  "missing_editor =
     \<lparr> openTextDocument =
         (\<lambda>u. if u = Uri ''file:///gone.txt'' then Inl ExternalOperationFailed else Inr u),
       showTextDocument = Inr \<rparr>"

definition blank_editor :: editor where
  "blank_editor =
     \<lparr> openTextDocument = Inr, showTextDocument = (\<lambda>document. Inl ExternalOperationFailed) \<rparr>"

definition two_bookmarks :: group where
  "two_bookmarks =
     BookmarkGroup ''group-1-1'' ''G'' []
       [\<lparr> b_id = ''bookmark-1-1'', b_uri = Uri ''file:///gone.txt'', b_name = ''gone.txt'',
           b_description = [], b_createdAt = Date 1 \<rparr>,
        \<lparr> b_id = ''bookmark-2-2'', b_uri = Uri ''file:///here.txt'', b_name = ''here.txt'',
           b_description = [], b_createdAt = Date 2 \<rparr>]
       [] None (Date 1)"

text \<open>
  Two \<^verbatim>\<open>addBookmark\<close> calls on a fresh manager within one millisecond, with the same
  draw from the random number generator.
\<close>

definition same_tick :: env where
  "same_tick = \<lparr> date_now = 1700000000000, math_random_1000 = 7, new_date = 1700000000000 \<rparr>"

definition two_adds :: manager where
  "two_adds =
     snd (addBookmark same_tick (Uri ''file:///b.txt'') None None None
       (snd (addBookmark same_tick (Uri ''file:///a.txt'') None None None
          (BookmarkManager_new same_tick None True))))"

text \<open>
  What the constructor leaves true of a bookmark: \<^verbatim>\<open>name || basename\<close> gives an empty
  name only when the base name is empty. A group tree has it when all its bookmarks do.
\<close>

definition Bookmark_inv :: "bookmark \<Rightarrow> bool" where
  "Bookmark_inv b = (b_name b \<noteq> [] \<or> basename (fsPath (b_uri b)) = [])"

fun Group_inv :: "group \<Rightarrow> bool" where
  "Group_inv (BookmarkGroup i n d bs gs p c) = (list_all Bookmark_inv bs \<and> list_all Group_inv gs)"

text \<open>
  Parent references, to compare a tree with its reconstruction: \<open>reparent\<close> points every
  child at the group that holds it and the top at \<open>p'\<close>; \<open>erase_parents\<close> forgets all
  of them, leaving ids, names, descriptions, timestamps, bookmarks and nesting;
  \<open>linked\<close> says that every child, at every depth, points at the group that holds it.
\<close>

fun reparent :: "string option \<Rightarrow> group \<Rightarrow> group" where
  "reparent p' (BookmarkGroup i n d bs gs p c) =
     BookmarkGroup i n d bs (map (reparent (Some i)) gs) p' c"

fun erase_parents :: "group \<Rightarrow> group" where
  "erase_parents (BookmarkGroup i n d bs gs p c) =
     BookmarkGroup i n d bs (map erase_parents gs) None c"

fun linked :: "group \<Rightarrow> bool" where
  "linked (BookmarkGroup i n d bs gs p c) =
     list_all (\<lambda>child. g_parent child = Some i \<and> linked child) gs"

text \<open>What \<^verbatim>\<open>loadState\<close> reports from its \<^verbatim>\<open>catch\<close>.\<close>

definition load_report :: "effect list" where
  "load_report =
     [ConsoleError ''Failed to load bookmarks state:'',
      ShowErrorMessage ''Failed to load bookmarks. State may be corrupted.'']"

text \<open>
  A forest three levels deep: \<open>deep_a\<close> holds \<open>deep_b\<close> and \<open>deep_c\<close>, \<open>deep_b\<close> holds
  \<open>deep_d\<close>; \<open>deep_a\<close> holds one bookmark and \<open>deep_d\<close> two.
\<close>

definition mark_x :: bookmark where
  "mark_x = \<lparr> b_id = ''bookmark-10-1'', b_uri = Uri ''file:///src/x.ts'', b_name = ''x.ts'',
              b_description = ''entry point'', b_createdAt = Date 10 \<rparr>"

definition mark_y :: bookmark where
  "mark_y = \<lparr> b_id = ''bookmark-11-2'', b_uri = Uri ''file:///src/y.ts'', b_name = ''y.ts'',
              b_description = [], b_createdAt = Date 11 \<rparr>"

definition mark_w :: bookmark where
  "mark_w = \<lparr> b_id = ''bookmark-13-4'', b_uri = Uri ''file:///src/w.ts'', b_name = ''w.ts'',
              b_description = [], b_createdAt = Date 13 \<rparr>"

definition deep_d :: group where
  "deep_d =
     BookmarkGroup ''group-4-4'' ''D'' [] [mark_y, mark_w] [] (Some ''group-2-2'') (Date 4)"

definition deep_b :: group where
  "deep_b = BookmarkGroup ''group-2-2'' ''B'' [] [] [deep_d] (Some ''group-1-1'') (Date 2)"

definition deep_c :: group where
  "deep_c = BookmarkGroup ''group-3-3'' ''C'' [] [] [] (Some ''group-1-1'') (Date 3)"

definition deep_a :: group where
  "deep_a = BookmarkGroup ''group-1-1'' ''A'' ''top'' [mark_x] [deep_b, deep_c] None (Date 1)"

definition deep_manager :: manager where
  "deep_manager =
     \<lparr> groups = [deep_a], bookmarks = [], trace = [], globalState = None, syncEnabled = True \<rparr>"

text \<open>
  Serialized records: a bookmark record that is well formed, one without \<^verbatim>\<open>uri\<close>, one
  whose \<^verbatim>\<open>uri\<close> the editor cannot parse, and a stored document whose bookmark is well
  formed and whose group has no \<^verbatim>\<open>bookmarks\<close> array.
\<close>

definition good_record :: bookmark_json where
  "good_record = \<lparr> j_id = ''bookmark-1-1'', j_uri = Some (Locator ''file:///a.txt''),
                   j_name = Some ''a.txt'',
                   j_description = Some [], j_createdAt = ISO 1 \<rparr>"


definition unparsable_record :: bookmark_json where
  "unparsable_record = \<lparr> j_id = ''bookmark-3-3'', j_uri = Some (Unparsable ''a b://x''),
                         j_name = Some ''c.txt'', j_description = Some [], j_createdAt = ISO 3 \<rparr>"


definition half_broken :: doc where
  "half_broken =
     \<lparr> d_bookmarks = Some [good_record],
       d_groups = Some [GroupJSON ''group-3-3'' ''G'' None None (Some []) (ISO 3)] \<rparr>"

text \<open>
  The groups of a forest in pre-order (a group, then the pre-order of each child in
  turn), and the order \<^verbatim>\<open>getAllGroupsRecursive\<close> follows: the children of a group
  together, then what each child yields in turn. \<open>group_ids\<close> lists the ids of every
  group of a forest.
\<close>

fun preorder :: "group \<Rightarrow> group list" where
  "preorder (BookmarkGroup i n d bs gs p c) =
     BookmarkGroup i n d bs gs p c # concat (map preorder gs)"

definition preorder_forest :: "group list \<Rightarrow> group list" where
  "preorder_forest gs = concat (map preorder gs)"

fun descendants :: "group \<Rightarrow> group list" where
  "descendants (BookmarkGroup i n d bs gs p c) = gs @ concat (map descendants gs)"

definition group_ids :: "group list \<Rightarrow> string list" where
  "group_ids gs = map g_id (preorder_forest gs)"

definition tree_ids :: "group \<Rightarrow> string list" where
  "tree_ids g = map g_id (preorder g)"

text \<open>
  The ids and the nesting of a group, without its other fields: what a search by id
  depends on.
\<close>

datatype skeleton = Skeleton string "skeleton list"

fun skeleton_of :: "group \<Rightarrow> skeleton" where
  "skeleton_of (BookmarkGroup i n d bs gs p c) = Skeleton i (map skeleton_of gs)"

text \<open>
  \<open>has_id\<close>: some bookmark of the list has the id. \<open>holder\<close>: the first group, in the
  order of \<^verbatim>\<open>getAllGroups()\<close>, that holds a bookmark with the id; this is where
  \<^verbatim>\<open>findBookmarkById\<close> and \<^verbatim>\<open>removeBookmark\<close> get to when the id is not at the root.
\<close>

definition has_id :: "string \<Rightarrow> bookmark list \<Rightarrow> bool" where
  "has_id i bs = list_ex (\<lambda>b. b_id b = i) bs"

definition holder :: "manager \<Rightarrow> string \<Rightarrow> (ref \<times> group) option" where
  "holder m i = find (\<lambda>r. has_id i (g_bookmarks (snd r))) (getAllGroups m)"


text \<open>
  What \<^verbatim>\<open>this._onDidChangeData.fire(); this.saveState();\<close> appends when run in state
  \<open>m\<close>: the event, seen with the forest of \<open>m\<close>, then the write of that forest.
  \<open>fires\<close> counts the events of a trace. \<open>written_before_fire\<close> holds of a trace in which
  a write comes before the first event. \<open>skip_logs\<close> are the log lines of skipped
  records.
\<close>

definition notified :: "manager \<Rightarrow> effect list" where
  "notified m =
     [Fire (bookmarks m) (groups m), GlobalStateUpdate (exportData m)]
       @ (if syncEnabled m then [SetKeysForSync] else [])"

fun fires :: "effect list \<Rightarrow> nat" where
  "fires [] = 0"
| "fires (Fire bs gs # rest) = Suc (fires rest)"
| "fires (x # rest) = fires rest"








section \<open>Opening the bookmarks of a group\<close>

lemma opened_append: "opened (xs @ ys) = opened xs @ opened ys"
  by (induction xs rule: opened.induct) auto

lemma Bookmark_open_total: "\<exists>r. fst (Bookmark_open ed b) = Inr r"
  by (simp add: Bookmark_open_def Let_def split: sum.splits)

lemma Bookmark_open_opened: "opened (snd (Bookmark_open ed b)) = [b_uri b]"
  by (simp add: Bookmark_open_def Let_def split: sum.splits)

lemma openAll_loop_ok:
  "fst (openAll_loop ed bs) = Inr () \<and> opened (snd (openAll_loop ed bs)) = map b_uri bs"
proof (induction bs)
  case Nil
  show ?case by simp
next
  case (Cons b bs)
  obtain r evs where bo: "Bookmark_open ed b = (r, evs)"
    by (cases "Bookmark_open ed b")
  from Bookmark_open_total [of ed b] bo obtain s where r: "r = Inr s"
    by auto
  from Bookmark_open_opened [of ed b] bo have d: "opened evs = [b_uri b]"
    by simp
  obtain r' rest where lo: "openAll_loop ed bs = (r', rest)"
    by (cases "openAll_loop ed bs")
  with Cons.IH have "r' = Inr ()" "opened rest = map b_uri bs"
    by auto
  then show ?case
    by (simp add: bo r lo d opened_append)
qed

text \<open>
  C7, as the code has it. \<^verbatim>\<open>Bookmark.open\<close> catches every failure of the editor, be it
  in \<^verbatim>\<open>openTextDocument\<close> or in \<^verbatim>\<open>showTextDocument\<close>, tells the user, and returns
  \<^verbatim>\<open>undefined\<close>; it never throws. So \<^verbatim>\<open>openAll\<close>, which has no guard of its own, never
  receives a failure: it returns normally and has called \<^verbatim>\<open>openTextDocument\<close> once for
  every bookmark of the group, in order.
\<close>

theorem openAll_attempts_every_bookmark:
  "fst (Group_openAll ed g) = Inr ()
   \<and> opened (snd (Group_openAll ed g)) = map b_uri (g_bookmarks g)
   \<and> (\<forall>b. (\<exists>r. fst (Bookmark_open ed b) = Inr r)
        \<and> ((\<exists>err. openTextDocument ed (b_uri b) = Inl err)
            \<or> (\<exists>document err. openTextDocument ed (b_uri b) = Inr document
                  \<and> showTextDocument ed document = Inl err) \<longrightarrow>
             fst (Bookmark_open ed b) = Inr None
             \<and> UiShowErrorMessage (''Failed to open bookmark: '' @ b_name b)
                 \<in> set (snd (Bookmark_open ed b))))"
  using openAll_loop_ok [of ed "g_bookmarks g"] Bookmark_open_total [of ed]
  by (auto simp: Group_openAll_def Bookmark_open_def Let_def split: sum.splits)

theorem openAll_attempts_every_bookmark_witness:
  "(\<exists>err. openTextDocument missing_editor (b_uri (hd (g_bookmarks two_bookmarks))) = Inl err)
   \<and> fst (Bookmark_open missing_editor (hd (g_bookmarks two_bookmarks))) = Inr None
   \<and> opened (snd (Group_openAll missing_editor two_bookmarks))
       = [Uri ''file:///gone.txt'', Uri ''file:///here.txt'']
   \<and> (\<exists>document err. openTextDocument blank_editor (b_uri mark_x) = Inr document
         \<and> showTextDocument blank_editor document = Inl err)
   \<and> fst (Bookmark_open blank_editor mark_x) = Inr None
   \<and> UiShowErrorMessage (''Failed to open bookmark: '' @ b_name mark_x)
       \<in> set (snd (Bookmark_open blank_editor mark_x))"
proof -
  have h: "\<exists>err. openTextDocument missing_editor (b_uri (hd (g_bookmarks two_bookmarks))) = Inl err"
    by (simp add: missing_editor_def two_bookmarks_def)
  have k: "\<exists>document err. openTextDocument blank_editor (b_uri mark_x) = Inr document
      \<and> showTextDocument blank_editor document = Inl err"
    by (simp add: blank_editor_def)
  from openAll_attempts_every_bookmark [of missing_editor two_bookmarks] h
  have "fst (Bookmark_open missing_editor (hd (g_bookmarks two_bookmarks))) = Inr None"
    "opened (snd (Group_openAll missing_editor two_bookmarks))
       = [Uri ''file:///gone.txt'', Uri ''file:///here.txt'']"
    by (simp_all add: two_bookmarks_def)
  moreover from openAll_attempts_every_bookmark [of blank_editor two_bookmarks] k
  have "fst (Bookmark_open blank_editor mark_x) = Inr None
    \<and> UiShowErrorMessage (''Failed to open bookmark: '' @ b_name mark_x)
        \<in> set (snd (Bookmark_open blank_editor mark_x))"
    by blast
  ultimately show ?thesis using h k
    by simp
qed

text \<open>
  C7 as stated fails: the first bookmark of \<open>two_bookmarks\<close> cannot be opened, yet
  \<^verbatim>\<open>openAll\<close> returns normally and the second bookmark is shown.
\<close>

theorem openAll_abort_counterexample:
  "openTextDocument missing_editor (b_uri (hd (g_bookmarks two_bookmarks)))
     = Inl ExternalOperationFailed
   \<and> fst (Group_openAll missing_editor two_bookmarks) = Inr ()
   \<and> ShowTextDocument (Uri ''file:///here.txt'')
       \<in> set (snd (Group_openAll missing_editor two_bookmarks))"
  by (simp add: missing_editor_def two_bookmarks_def Group_openAll_def Bookmark_open_def)

section \<open>Listing all groups\<close>

lemma map_snd_indexed: "map snd (indexed k gs) = gs"
  by (induction gs arbitrary: k) simp_all

lemma map_snd_under: "map snd (map (nested_under k) rs) = map snd rs"
  by (simp add: nested_under_def comp_def)

lemma getAllGroups_objects:
  "map snd (getAllGroupsRecursive g) = descendants g"
  "map snd (getAllGroups_loop k gs) = concat (map descendants gs)"
  by (induction g and k gs rule: getAllGroupsRecursive_getAllGroups_loop.induct)
    (simp_all add: map_snd_indexed map_snd_under del: map_map)

lemma preorder_descendants_list:
  "(\<And>c. c \<in> set gs \<Longrightarrow> mset (preorder c) = add_mset c (mset (descendants c)))
   \<Longrightarrow> mset (concat (map preorder gs)) = mset gs + mset (concat (map descendants gs))"
  by (induction gs) simp_all

lemma preorder_descendants: "mset (preorder g) = add_mset g (mset (descendants g))"
  by (induction g) (simp add: preorder_descendants_list)

lemma preorder_forest_descendants:
  "mset (preorder_forest gs) = mset gs + mset (concat (map descendants gs))"
  unfolding preorder_forest_def
  by (rule preorder_descendants_list) (rule preorder_descendants)

text \<open>
  C4, as the code has it. \<^verbatim>\<open>getAllGroups\<close> returns every group of the forest, root and
  descendant, as often as it occurs there: its result is a rearrangement of the
  pre-order listing. The order is not pre-order: the root groups come first, then for
  each root in turn its descendants, and the descendants of a group are its children
  together followed by the descendants of each child in turn.
\<close>

theorem getAllGroups_order:
  "map snd (getAllGroups m) = groups m @ concat (map descendants (groups m))
   \<and> mset (map snd (getAllGroups m)) = mset (preorder_forest (groups m))"
  by (simp add: getAllGroups_def map_snd_indexed getAllGroups_objects preorder_forest_descendants)

text \<open>
  C4 as stated fails on \<open>deep_manager\<close>: \<open>deep_c\<close>, the second child of the root, is
  listed before \<open>deep_d\<close>, the child of the first child.
\<close>

theorem getAllGroups_preorder_counterexample:
  "map g_id (map snd (getAllGroups deep_manager))
     = [''group-1-1'', ''group-2-2'', ''group-3-3'', ''group-4-4'']
   \<and> map g_id (preorder_forest (groups deep_manager))
     = [''group-1-1'', ''group-2-2'', ''group-4-4'', ''group-3-3'']
   \<and> map snd (getAllGroups deep_manager) \<noteq> preorder_forest (groups deep_manager)"
proof -
  have a: "map g_id (map snd (getAllGroups deep_manager))
     = [''group-1-1'', ''group-2-2'', ''group-3-3'', ''group-4-4'']"
    by (simp add: deep_manager_def deep_a_def deep_b_def deep_c_def deep_d_def getAllGroups_def
        nested_under_def)
  have b: "map g_id (preorder_forest (groups deep_manager))
     = [''group-1-1'', ''group-2-2'', ''group-4-4'', ''group-3-3'']"
    by (simp add: deep_manager_def deep_a_def deep_b_def deep_c_def deep_d_def
        preorder_forest_def)
  from a b have "map g_id (map snd (getAllGroups deep_manager))
      \<noteq> map g_id (preorder_forest (groups deep_manager))"
    by simp
  then have "map snd (getAllGroups deep_manager) \<noteq> preorder_forest (groups deep_manager)"
    by (rule contrapos_nn) (rule arg_cong)
  with a b show ?thesis
    by simp
qed

section \<open>Removing a group\<close>

lemma set_getAllGroups: "snd ` set (getAllGroups m) = set (preorder_forest (groups m))"
proof -
  have "mset (map snd (getAllGroups m)) = mset (preorder_forest (groups m))"
    by (simp add: getAllGroups_def map_snd_indexed getAllGroups_objects preorder_forest_descendants)
  then have "set (map snd (getAllGroups m)) = set (preorder_forest (groups m))"
    by (rule mset_eq_setD)
  then show ?thesis by simp
qed


lemma preorder_self: "g \<in> set (preorder g)"
  by (cases g) simp

lemma preorder_forest_root: "g \<in> set gs \<Longrightarrow> g \<in> set (preorder_forest gs)"
  unfolding preorder_forest_def using preorder_self by auto

lemma preorder_child:
  "x \<in> set (preorder_forest (g_groups g)) \<Longrightarrow> x \<in> set (preorder g)"
  unfolding preorder_forest_def by (cases g) auto

lemma preorder_forest_child:
  "g \<in> set gs \<Longrightarrow> x \<in> set (preorder_forest (g_groups g)) \<Longrightarrow> x \<in> set (preorder_forest gs)"
  using preorder_child [of x g] unfolding preorder_forest_def by auto

lemma deref_preorder: "deref gs p = Some g \<Longrightarrow> g \<in> set (preorder_forest gs)"
proof (induction gs p rule: deref.induct)
  case (1 gs)
  then show ?case by simp
next
  case (2 gs k)
  then show ?case by (auto split: if_splits intro: preorder_forest_root)
next
  case (3 gs k q p)
  then have k: "k < length gs" and d: "deref (g_groups (gs ! k)) (q # p) = Some g"
    by (auto split: if_splits)
  from 3(1) [OF k d] have "g \<in> set (preorder_forest (g_groups (gs ! k)))" .
  moreover from k have "gs ! k \<in> set gs" by simp
  ultimately show ?case by (rule preorder_forest_child [rotated])
qed

lemma preorder_parent:
  "x \<in> set (preorder g) \<Longrightarrow> x = g \<or> (\<exists>q \<in> set (preorder g). x \<in> set (g_groups q))"
proof (induction g)
  case (BookmarkGroup i n d bs gs p c)
  show ?case
  proof (cases "x = BookmarkGroup i n d bs gs p c")
    case True
    then show ?thesis by simp
  next
    case False
    with BookmarkGroup.prems obtain ch where ch: "ch \<in> set gs" "x \<in> set (preorder ch)"
      by auto
    from BookmarkGroup.IH [OF ch] show ?thesis
    proof
      assume "x = ch"
      with ch have "x \<in> set (g_groups (BookmarkGroup i n d bs gs p c))" by simp
      moreover have "BookmarkGroup i n d bs gs p c \<in> set (preorder (BookmarkGroup i n d bs gs p c))"
        by (rule preorder_self)
      ultimately show ?thesis by blast
    next
      assume "\<exists>q\<in>set (preorder ch). x \<in> set (g_groups q)"
      then obtain q where "q \<in> set (preorder ch)" "x \<in> set (g_groups q)" by blast
      with ch show ?thesis by auto
    qed
  qed
qed

lemma preorder_forest_parent:
  "x \<in> set (preorder_forest gs) \<Longrightarrow>
     x \<in> set gs \<or> (\<exists>q \<in> set (preorder_forest gs). x \<in> set (g_groups q))"
  unfolding preorder_forest_def using preorder_parent by fastforce

lemma filter_shorter: "(length xs \<noteq> length (filter P xs)) = (\<exists>x \<in> set xs. \<not> P x)"
proof
  assume "length xs \<noteq> length (filter P xs)"
  then have "filter P xs \<noteq> xs" by auto
  then show "\<exists>x \<in> set xs. \<not> P x" by (simp add: filter_id_conv)
next
  assume "\<exists>x \<in> set xs. \<not> P x"
  then obtain x where "x \<in> set xs" "\<not> P x" by blast
  then have "length (filter P xs) < length xs" by (rule length_filter_less)
  then show "length xs \<noteq> length (filter P xs)" by simp
qed

lemma g_groups_set_groups [simp]: "g_groups (set_groups gs g) = gs"
  by (cases g) simp

lemma Group_removeGroup_fst:
  "fst (Group_removeGroup i g) = (\<exists>c \<in> set (g_groups g). g_id c = i)"
  by (simp add: Group_removeGroup_def Let_def filter_shorter)

lemma removeGroup_loop_found:
  "\<exists>r \<in> set rs. \<exists>c \<in> set (g_groups (snd r)). g_id c = i \<Longrightarrow> fst (removeGroup_loop rs i gs)"
  by (induction rs) (auto simp: Group_removeGroup_fst)

lemma removeGroup_returns_true:
  assumes "g \<in> set (preorder_forest (groups m))"
  shows "fst (removeGroup (g_id g) m)"
proof (cases "\<exists>r \<in> set (groups m). g_id r = g_id g")
  case True
  then have "length (groups m) \<noteq> length (filter (\<lambda>x. g_id x \<noteq> g_id g) (groups m))"
    by (simp add: filter_shorter)
  then show ?thesis
    by (simp add: removeGroup_def Let_def)
next
  case False
  then have same: "filter (\<lambda>x. g_id x \<noteq> g_id g) (groups m) = groups m"
    by (simp add: filter_id_conv)
  from False have "g \<notin> set (groups m)" by blast
  with assms preorder_forest_parent obtain q
    where q: "q \<in> set (preorder_forest (groups m))" "g \<in> set (g_groups q)" by blast
  from q(1) have "q \<in> snd ` set (getAllGroups m)" by (simp add: set_getAllGroups)
  then obtain r where "r \<in> set (getAllGroups m)" "snd r = q" by auto
  with q(2) have "\<exists>r \<in> set (getAllGroups m). \<exists>c \<in> set (g_groups (snd r)). g_id c = g_id g"
    by blast
  then have "fst (removeGroup_loop (getAllGroups m) (g_id g) (groups m))"
    by (rule removeGroup_loop_found)
  moreover have "getAllGroups (m\<lparr>groups := groups m\<rparr>) = getAllGroups m"
    by (simp add: getAllGroups_def)
  ultimately show ?thesis
    by (cases "removeGroup_loop (getAllGroups m) (g_id g) (groups m)")
      (simp add: removeGroup_def Let_def same)
qed


lemma deref_Cons:
  "deref gs (k # p) =
     (if k < length gs then (if p = [] then Some (gs ! k) else deref (g_groups (gs ! k)) p)
      else None)"
  by (cases p) simp_all

lemma modify_Cons:
  "modify (k # p) f gs =
     (if k < length gs
      then gs[k := (if p = [] then f (gs ! k)
                    else set_groups (modify p f (g_groups (gs ! k))) (gs ! k))]
      else gs)"
  by (cases p) simp_all

lemma indexed_valid:
  "r \<in> set (indexed (length pre) gs) \<Longrightarrow> deref (pre @ gs) (fst r) = Some (snd r)"
proof (induction gs arbitrary: pre)
  case Nil
  then show ?case by simp
next
  case (Cons g gs)
  from Cons.IH [of "pre @ [g]"] Cons.prems show ?case
    by (auto simp: nth_append)
qed

lemma getAllGroups_valid_aux:
  "(\<forall>r \<in> set (getAllGroupsRecursive g). fst r \<noteq> [] \<and> deref (g_groups g) (fst r) = Some (snd r))"
  "(\<forall>pre. k = length pre \<longrightarrow>
      (\<forall>r \<in> set (getAllGroups_loop k gs). deref (pre @ gs) (fst r) = Some (snd r)))"
proof (induction g and k gs rule: getAllGroupsRecursive_getAllGroups_loop.induct)
  case (1 i n d bs gs p c)
  have nonempty: "\<And>r. deref gs (fst r) = Some (snd r) \<Longrightarrow> fst r \<noteq> []"
    by (metis deref.simps(1) option.distinct(1))
  have "\<And>r. r \<in> set (indexed 0 gs) \<Longrightarrow> deref gs (fst r) = Some (snd r)"
    using indexed_valid [of _ "[]" gs] by simp
  moreover have "\<And>r. r \<in> set (getAllGroups_loop 0 gs) \<Longrightarrow> deref gs (fst r) = Some (snd r)"
    using 1 by simp
  ultimately have "\<And>r. r \<in> set (indexed 0 gs @ getAllGroups_loop 0 gs)
      \<Longrightarrow> deref gs (fst r) = Some (snd r)"
    by auto
  with nonempty show ?case by simp
next
  case (2 k)
  then show ?case by simp
next
  case (3 k childGroup rest)
  show ?case
  proof (intro allI impI ballI)
    fix pre :: "group list" and r
    assume k: "k = length pre" and r: "r \<in> set (getAllGroups_loop k (childGroup # rest))"
    from r consider (here) r' where "r' \<in> set (getAllGroupsRecursive childGroup)" "r = nested_under k r'"
      | (later) "r \<in> set (getAllGroups_loop (Suc k) rest)"
      by auto
    then show "deref (pre @ childGroup # rest) (fst r) = Some (snd r)"
    proof cases
      case here
      with 3(1) have "fst r' \<noteq> []" "deref (g_groups childGroup) (fst r') = Some (snd r')"
        by auto
      with here(2) k show ?thesis
        by (simp add: nested_under_def deref_Cons)
    next
      case later
      from 3(2) have "Suc k = length (pre @ [childGroup]) \<longrightarrow>
          (\<forall>r \<in> set (getAllGroups_loop (Suc k) rest).
             deref ((pre @ [childGroup]) @ rest) (fst r) = Some (snd r))"
        by (rule allE)
      with later k show ?thesis by simp
    qed
  qed
qed

lemma getAllGroups_valid:
  "r \<in> set (getAllGroups m) \<Longrightarrow> deref (groups m) (fst r) = Some (snd r)"
  using indexed_valid [of r "[]" "groups m"] getAllGroups_valid_aux(2) [of 0 "groups m"]
  by (auto simp: getAllGroups_def)

lemma tree_ids_eq: "tree_ids g = g_id g # group_ids (g_groups g)"
  by (cases g) (simp add: tree_ids_def group_ids_def preorder_forest_def)

lemma group_ids_Nil [simp]: "group_ids [] = []"
  by (simp add: group_ids_def preorder_forest_def)

lemma group_ids_Cons: "group_ids (g # gs) = tree_ids g @ group_ids gs"
  by (simp add: group_ids_def preorder_forest_def tree_ids_def)

lemma group_ids_append: "group_ids (xs @ ys) = group_ids xs @ group_ids ys"
  by (simp add: group_ids_def preorder_forest_def)

lemma group_ids_update:
  "k < length gs \<Longrightarrow>
     mset (group_ids (gs[k := x])) + mset (tree_ids (gs ! k))
       = mset (group_ids gs) + mset (tree_ids x)"
proof -
  assume k: "k < length gs"
  have a: "gs = take k gs @ (gs ! k) # drop (Suc k) gs"
    using k by (rule id_take_nth_drop)
  have b: "gs[k := x] = take k gs @ x # drop (Suc k) gs"
    using k by (rule upd_conv_take_nth_drop)
  have "mset (group_ids gs) = mset (group_ids (take k gs)) + mset (tree_ids (gs ! k))
          + mset (group_ids (drop (Suc k) gs))"
    by (subst a) (simp add: group_ids_append group_ids_Cons)
  moreover have "mset (group_ids (gs[k := x])) = mset (group_ids (take k gs)) + mset (tree_ids x)
          + mset (group_ids (drop (Suc k) gs))"
    by (subst b) (simp add: group_ids_append group_ids_Cons)
  ultimately show ?thesis by simp
qed

lemma g_id_set_groups [simp]: "g_id (set_groups gs g) = g_id g"
  by (cases g) simp

lemma group_ids_modify:
  "deref gs p = Some q \<Longrightarrow>
     mset (group_ids (modify p f gs)) + mset (tree_ids q)
       = mset (group_ids gs) + mset (tree_ids (f q))"
proof (induction gs p arbitrary: q rule: deref.induct)
  case (1 gs)
  then show ?case by simp
next
  case (2 gs k)
  then show ?case by (auto split: if_splits simp: group_ids_update)
next
  case (3 gs k a p)
  then have k: "k < length gs" and d: "deref (g_groups (gs ! k)) (a # p) = Some q"
    by (auto split: if_splits)
  let ?ch = "g_groups (gs ! k)"
  let ?x = "set_groups (modify (a # p) f ?ch) (gs ! k)"
  from 3(1) [OF k d]
  have ih: "mset (group_ids (modify (a # p) f ?ch)) + mset (tree_ids q)
              = mset (group_ids ?ch) + mset (tree_ids (f q))" .
  have "mset (group_ids (gs[k := ?x])) + mset (tree_ids (gs ! k))
          = mset (group_ids gs) + mset (tree_ids ?x)"
    using k by (rule group_ids_update)
  then have "mset (group_ids (gs[k := ?x])) + mset (group_ids ?ch)
          = mset (group_ids gs) + mset (group_ids (modify (a # p) f ?ch))"
    by (simp add: tree_ids_eq)
  with ih have "mset (group_ids (gs[k := ?x])) + mset (group_ids ?ch) + mset (tree_ids q)
          = mset (group_ids gs) + mset (group_ids ?ch) + mset (tree_ids (f q))"
    by (simp add: ac_simps)
  then have "mset (group_ids (gs[k := ?x])) + mset (tree_ids q)
          = mset (group_ids gs) + mset (tree_ids (f q))"
    by (simp add: ac_simps)
  with k show ?case by simp
qed

lemma group_ids_filter:
  "mset (group_ids gs)
     = mset (group_ids (filter P gs)) + mset (group_ids (filter (\<lambda>x. \<not> P x) gs))"
  by (induction gs) (simp_all add: group_ids_Cons)

lemma group_ids_root: "g \<in> set gs \<Longrightarrow> g_id g \<in> set (group_ids gs)"
  unfolding group_ids_def using preorder_forest_root by force

lemma removeGroup_loop_result:
  "fst (removeGroup_loop rs i gs) \<Longrightarrow>
     \<exists>r \<in> set rs. fst (Group_removeGroup i (snd r))
        \<and> snd (removeGroup_loop rs i gs) = modify (fst r) (\<lambda>g. snd (Group_removeGroup i g)) gs"
  by (induction rs) (auto split: if_splits)

lemma removeGroup_loop_not_found: "\<not> fst (removeGroup_loop rs i gs) \<Longrightarrow> snd (removeGroup_loop rs i gs) = gs"
  by (induction rs) (auto split: if_splits)


lemma groups_notify [simp]:
  "groups (fire m) = groups m" "groups (saveState m) = groups m"
  "bookmarks (fire m) = bookmarks m" "bookmarks (saveState m) = bookmarks m"
  by (simp_all add: fire_def saveState_def Let_def)

lemma removeGroup_groups:
  "groups (snd (removeGroup i m)) =
     (if \<exists>r \<in> set (groups m). g_id r = i then filter (\<lambda>g. g_id g \<noteq> i) (groups m)
      else snd (removeGroup_loop (getAllGroups m) i (groups m)))"
proof (cases "\<exists>r \<in> set (groups m). g_id r = i")
  case True
  then have "length (groups m) \<noteq> length (filter (\<lambda>x. g_id x \<noteq> i) (groups m))"
    by (simp add: filter_shorter)
  with True show ?thesis
    by (simp add: removeGroup_def Let_def)
next
  case False
  then have same: "filter (\<lambda>x. g_id x \<noteq> i) (groups m) = groups m"
    by (simp add: filter_id_conv)
  have "getAllGroups (m\<lparr>groups := groups m\<rparr>) = getAllGroups m"
    by (simp add: getAllGroups_def)
  with False show ?thesis
    by (cases "removeGroup_loop (getAllGroups m) i (groups m)")
      (simp add: removeGroup_def Let_def same)
qed

lemma removeGroup_ids:
  "\<exists>removed. mset (group_ids (groups m))
       = mset (group_ids (groups (snd (removeGroup i m)))) + mset removed
     \<and> (fst (removeGroup i m) \<longrightarrow> i \<in> set removed)"
proof (cases "\<exists>r \<in> set (groups m). g_id r = i")
  case True
  then obtain r where r: "r \<in> set (groups m)" "g_id r = i" by blast
  let ?out = "filter (\<lambda>g. \<not> g_id g \<noteq> i) (groups m)"
  from r have "r \<in> set ?out" by simp
  then have "g_id r \<in> set (group_ids ?out)" by (rule group_ids_root)
  with r have "i \<in> set (group_ids ?out)" by simp
  moreover have "mset (group_ids (groups m))
      = mset (group_ids (filter (\<lambda>g. g_id g \<noteq> i) (groups m))) + mset (group_ids ?out)"
    by (rule group_ids_filter)
  ultimately show ?thesis using True
    by (auto simp: removeGroup_groups)
next
  case False
  let ?loop = "removeGroup_loop (getAllGroups m) i (groups m)"
  show ?thesis
  proof (cases "fst ?loop")
    case found: True
    from removeGroup_loop_result [OF found] obtain r
      where r: "r \<in> set (getAllGroups m)" "fst (Group_removeGroup i (snd r))"
        and out: "snd ?loop = modify (fst r) (\<lambda>g. snd (Group_removeGroup i g)) (groups m)"
      by blast
    let ?q = "snd r"
    let ?kept = "filter (\<lambda>c. g_id c \<noteq> i) (g_groups ?q)"
    let ?out = "filter (\<lambda>c. \<not> g_id c \<noteq> i) (g_groups ?q)"
    from r(1) have "deref (groups m) (fst r) = Some ?q" by (rule getAllGroups_valid)
    then have "mset (group_ids (snd ?loop)) + mset (tree_ids ?q)
        = mset (group_ids (groups m)) + mset (tree_ids (snd (Group_removeGroup i ?q)))"
      unfolding out by (rule group_ids_modify)
    then have "mset (group_ids (snd ?loop)) + mset (group_ids (g_groups ?q))
        = mset (group_ids (groups m)) + mset (group_ids ?kept)"
      by (simp add: tree_ids_eq Group_removeGroup_def Let_def)
    moreover have "mset (group_ids (g_groups ?q)) = mset (group_ids ?kept) + mset (group_ids ?out)"
      by (rule group_ids_filter)
    ultimately have "mset (group_ids (snd ?loop)) + mset (group_ids ?kept) + mset (group_ids ?out)
        = mset (group_ids (groups m)) + mset (group_ids ?kept)"
      by (simp add: ac_simps)
    then have eq: "mset (group_ids (groups m)) = mset (group_ids (snd ?loop)) + mset (group_ids ?out)"
      by (simp add: ac_simps)
    from r(2) obtain c where c: "c \<in> set (g_groups ?q)" "g_id c = i"
      by (auto simp: Group_removeGroup_fst)
    then have "c \<in> set ?out" by simp
    then have "g_id c \<in> set (group_ids ?out)" by (rule group_ids_root)
    with c have "i \<in> set (group_ids ?out)" by simp
    with eq False show ?thesis
      by (auto simp: removeGroup_groups)
  next
    case missing: False
    then have "snd ?loop = groups m" by (rule removeGroup_loop_not_found)
    moreover have "\<not> fst (removeGroup i m)"
    proof -
      have same: "filter (\<lambda>x. g_id x \<noteq> i) (groups m) = groups m"
        using False by (simp add: filter_id_conv)
      have "getAllGroups (m\<lparr>groups := groups m\<rparr>) = getAllGroups m"
        by (simp add: getAllGroups_def)
      with missing show ?thesis
        by (cases ?loop) (simp add: removeGroup_def Let_def same)
    qed
    ultimately show ?thesis using False
      by (auto simp: removeGroup_groups)
  qed
qed

text \<open>
  C1, as the code has it. The loop of \<^verbatim>\<open>removeGroup\<close> runs over \<^verbatim>\<open>getAllGroups()\<close>, which
  holds every group of the forest at every depth, so the parent of any nested group is
  among the groups asked to remove the child. For a group at any place \<open>p\<close> of the
  forest, \<^verbatim>\<open>removeGroup\<close> on its id returns true and the forest afterwards has fewer
  groups with that id; when the group ids of the forest are distinct, none is left.
\<close>

theorem removeGroup_reaches_every_depth:
  assumes "deref (groups m) p = Some g"
  shows "fst (removeGroup (g_id g) m) = True
    \<and> count_list (group_ids (groups (snd (removeGroup (g_id g) m)))) (g_id g)
        < count_list (group_ids (groups m)) (g_id g)
    \<and> (distinct (group_ids (groups m)) \<longrightarrow>
         g_id g \<notin> set (group_ids (groups (snd (removeGroup (g_id g) m)))))"
proof -
  let ?i = "g_id g"
  let ?after = "group_ids (groups (snd (removeGroup ?i m)))"
  from assms have "g \<in> set (preorder_forest (groups m))" by (rule deref_preorder)
  then have t: "fst (removeGroup ?i m)" by (rule removeGroup_returns_true)
  with removeGroup_ids [of m ?i] obtain removed
    where eq: "mset (group_ids (groups m)) = mset ?after + mset removed"
      and i: "?i \<in> set removed"
    by blast
  from eq have "count (mset (group_ids (groups m))) ?i
      = count (mset ?after) ?i + count (mset removed) ?i"
    by simp
  moreover from i have "0 < count (mset removed) ?i" by simp
  ultimately have less: "count_list ?after ?i < count_list (group_ids (groups m)) ?i"
    by (simp add: count_mset)
  have "distinct (group_ids (groups m)) \<Longrightarrow> ?i \<notin> set ?after"
  proof
    assume d: "distinct (group_ids (groups m))" and a: "?i \<in> set ?after"
    from a have "count_list ?after ?i \<noteq> 0" by (simp add: count_list_0_iff)
    then have "0 < count_list ?after ?i" by simp
    with less have "1 < count_list (group_ids (groups m)) ?i" by simp
    moreover from d have "count_list (group_ids (groups m)) ?i \<le> 1"
      by (metis count_mset distinct_count_atmost_1 le_refl zero_le_one)
    ultimately show False by simp
  qed
  with t less show ?thesis by simp
qed

theorem removeGroup_reaches_every_depth_witness:
  "deref (groups deep_manager) [0, 0, 0] = Some deep_d
   \<and> distinct (group_ids (groups deep_manager))
   \<and> fst (removeGroup ''group-4-4'' deep_manager) = True
   \<and> ''group-4-4'' \<notin> set (group_ids (groups (snd (removeGroup ''group-4-4'' deep_manager))))"
proof -
  have d: "deref (groups deep_manager) [0, 0, 0] = Some deep_d"
    by (simp add: deep_manager_def deep_a_def deep_b_def)
  have u: "distinct (group_ids (groups deep_manager))"
    by (simp add: deep_manager_def deep_a_def deep_b_def deep_c_def deep_d_def group_ids_def
        preorder_forest_def)
  have i: "g_id deep_d = ''group-4-4''"
    by (simp add: deep_d_def)
  from removeGroup_reaches_every_depth [OF d] d u i
  show ?thesis
    by simp
qed

text \<open>
  C1 as stated fails: there is no forest with a group more than one level deep on whose
  id \<^verbatim>\<open>removeGroup\<close> returns false.
\<close>

theorem removeGroup_nested_counterexample:
  "\<not> (\<exists>m p g. 2 < length p \<and> deref (groups m) p = Some g
         \<and> fst (removeGroup (g_id g) m) = False
         \<and> g_id g \<in> set (group_ids (groups (snd (removeGroup (g_id g) m)))))"
  using removeGroup_returns_true deref_preorder by blast

section \<open>References, searches and writes\<close>



lemma skeleton_of_eq: "skeleton_of g = Skeleton (g_id g) (map skeleton_of (g_groups g))"
  by (cases g) simp

lemma skeleton_update:
  "k < length gs \<Longrightarrow> skeleton_of x = skeleton_of (gs ! k)
     \<Longrightarrow> map skeleton_of (gs[k := x]) = map skeleton_of gs"
  by (simp add: map_update list_update_same_conv)

lemma skeleton_modify:
  "(\<And>g. skeleton_of (f g) = skeleton_of g) \<Longrightarrow> map skeleton_of (modify p f gs) = map skeleton_of gs"
proof (induction p f gs rule: modify.induct)
  case (1 f gs)
  then show ?case by simp
next
  case (2 k f gs)
  then show ?case by (simp add: skeleton_update)
next
  case (3 k q p f gs)
  show ?case
  proof (cases "k < length gs")
    case True
    from 3(1) [OF True 3(2)]
    have "map skeleton_of (modify (q # p) f (g_groups (gs ! k))) = map skeleton_of (g_groups (gs ! k))" .
    then have "skeleton_of (set_groups (modify (q # p) f (g_groups (gs ! k))) (gs ! k))
        = skeleton_of (gs ! k)"
      by (simp add: skeleton_of_eq)
    with True show ?thesis by (simp add: skeleton_update)
  next
    case False
    then show ?thesis by simp
  qed
qed

lemma find_root_skeleton:
  "map skeleton_of gs = map skeleton_of gs' \<Longrightarrow>
     map_option fst (find_root k gs i) = map_option fst (find_root k gs' i)"
proof (induction gs arbitrary: gs' k)
  case Nil
  then show ?case by simp
next
  case (Cons g gs)
  then obtain g' rest where gs': "gs' = g' # rest" by (cases gs') auto
  with Cons.prems have "skeleton_of g = skeleton_of g'" "map skeleton_of gs = map skeleton_of rest"
    by auto
  moreover from this(1) have "g_id g = g_id g'"
    by (metis skeleton.inject skeleton_of_eq)
  ultimately show ?case using Cons.IH [of rest "Suc k"] gs' by simp
qed

lemma findGroupById_skeleton_aux:
  "(\<forall>g'. skeleton_of g = skeleton_of g' \<longrightarrow>
      map_option fst (findGroupByIdRecursive g i) = map_option fst (findGroupByIdRecursive g' i))"
  "(\<forall>gs'. map skeleton_of gs = map skeleton_of gs' \<longrightarrow>
      map_option fst (findGroupById_loop k gs i) = map_option fst (findGroupById_loop k gs' i))"
proof (induction g i and k gs i rule: findGroupByIdRecursive_findGroupById_loop.induct)
  case (1 i n d bs gs p c ident)
  show ?case
  proof (intro allI impI)
    fix g' assume s: "skeleton_of (BookmarkGroup i n d bs gs p c) = skeleton_of g'"
    obtain i' n' d' bs' gs' p' c' where g': "g' = BookmarkGroup i' n' d' bs' gs' p' c'"
      by (cases g')
    with s have "i = i'" "map skeleton_of gs = map skeleton_of gs'" by auto
    with 1 g' show "map_option fst (findGroupByIdRecursive (BookmarkGroup i n d bs gs p c) ident)
        = map_option fst (findGroupByIdRecursive g' ident)"
      by simp
  qed
next
  case (2 k ident)
  then show ?case by simp
next
  case (3 k childGroup rest ident)
  show ?case
  proof (intro allI impI)
    fix gs' assume s: "map skeleton_of (childGroup # rest) = map skeleton_of gs'"
    then obtain c' rest' where gs': "gs' = c' # rest'" by (cases gs') auto
    with s have c: "skeleton_of childGroup = skeleton_of c'"
      and r: "map skeleton_of rest = map skeleton_of rest'" by auto
    from 3(1) c have h: "map_option fst (findGroupByIdRecursive childGroup ident)
        = map_option fst (findGroupByIdRecursive c' ident)" by blast
    show "map_option fst (findGroupById_loop k (childGroup # rest) ident)
        = map_option fst (findGroupById_loop k gs' ident)"
    proof (cases "findGroupByIdRecursive childGroup ident")
      case None
      with h have n': "findGroupByIdRecursive c' ident = None" by simp
      from 3(2) [OF None] r have "map_option fst (findGroupById_loop (Suc k) rest ident)
          = map_option fst (findGroupById_loop (Suc k) rest' ident)" by blast
      with None n' gs' show ?thesis by simp
    next
      case (Some a)
      with h obtain a' where a': "findGroupByIdRecursive c' ident = Some a'" "fst a = fst a'"
        by (cases "findGroupByIdRecursive c' ident") auto
      with Some gs' show ?thesis by (simp add: nested_under_def)
    qed
  qed
qed

lemma findGroupById_skeleton:
  "map skeleton_of (groups m) = map skeleton_of (groups m') \<Longrightarrow>
     map_option fst (findGroupById m i) = map_option fst (findGroupById m' i)"
proof -
  assume s: "map skeleton_of (groups m) = map skeleton_of (groups m')"
  then have r: "map_option fst (find_root 0 (groups m) i) = map_option fst (find_root 0 (groups m') i)"
    by (rule find_root_skeleton)
  from s findGroupById_skeleton_aux(2) [of "groups m" 0 i]
  have l: "map_option fst (findGroupById_loop 0 (groups m) i)
      = map_option fst (findGroupById_loop 0 (groups m') i)" by blast
  show ?thesis
  proof (cases "find_root 0 (groups m) i")
    case None
    with r have "find_root 0 (groups m') i = None" by simp
    with None l show ?thesis by (simp add: findGroupById_def)
  next
    case (Some a)
    with r obtain a' where "find_root 0 (groups m') i = Some a'" "fst a = fst a'"
      by (cases "find_root 0 (groups m') i") auto
    with Some show ?thesis by (simp add: findGroupById_def)
  qed
qed


lemma find_root_valid:
  "find_root (length pre) gs i = Some r \<Longrightarrow>
     deref (pre @ gs) (fst r) = Some (snd r) \<and> g_id (snd r) = i"
proof (induction gs arbitrary: pre)
  case Nil
  then show ?case by simp
next
  case (Cons g gs)
  from Cons.IH [of "pre @ [g]"] Cons.prems show ?case
    by (auto simp: nth_append split: if_splits)
qed

lemma findGroupById_valid_aux:
  "(\<forall>r. findGroupByIdRecursive g i = Some r \<longrightarrow>
      g_id (snd r) = i \<and> (if fst r = [] then snd r = g else deref (g_groups g) (fst r) = Some (snd r)))"
  "(\<forall>pre r. k = length pre \<longrightarrow> findGroupById_loop k gs i = Some r \<longrightarrow>
      g_id (snd r) = i \<and> deref (pre @ gs) (fst r) = Some (snd r))"
proof (induction g i and k gs i rule: findGroupByIdRecursive_findGroupById_loop.induct)
  case (1 i n d bs gs p c ident)
  show ?case
  proof (cases "i = ident")
    case True
    then show ?thesis by simp
  next
    case False
    with 1 have "\<forall>r. findGroupById_loop 0 gs ident = Some r \<longrightarrow>
        g_id (snd r) = ident \<and> deref gs (fst r) = Some (snd r)"
      by simp
    moreover have "\<And>r. deref gs (fst r) = Some (snd r) \<Longrightarrow> fst r \<noteq> []"
      by (metis deref.simps(1) option.distinct(1))
    ultimately show ?thesis using False by auto
  qed
next
  case (2 k ident)
  then show ?case by simp
next
  case (3 k childGroup rest ident)
  show ?case
  proof (intro allI impI)
    fix pre :: "group list" and r
    assume k: "k = length pre" and f: "findGroupById_loop k (childGroup # rest) ident = Some r"
    show "g_id (snd r) = ident \<and> deref (pre @ childGroup # rest) (fst r) = Some (snd r)"
    proof (cases "findGroupByIdRecursive childGroup ident")
      case None
      from 3(2) [OF None] have "Suc k = length (pre @ [childGroup]) \<longrightarrow>
          findGroupById_loop (Suc k) rest ident = Some r \<longrightarrow>
          g_id (snd r) = ident \<and> deref ((pre @ [childGroup]) @ rest) (fst r) = Some (snd r)"
        by blast
      with None f k show ?thesis by simp
    next
      case (Some a)
      with f have r: "r = nested_under k a" by simp
      from 3(1) Some have a: "g_id (snd a) = ident"
        "if fst a = [] then snd a = childGroup else deref (g_groups childGroup) (fst a) = Some (snd a)"
        by blast+
      with r k show ?thesis
        by (auto simp: nested_under_def deref_Cons split: if_splits)
    qed
  qed
qed

lemma findGroupById_valid:
  "findGroupById m i = Some r \<Longrightarrow> deref (groups m) (fst r) = Some (snd r) \<and> g_id (snd r) = i"
proof -
  assume f: "findGroupById m i = Some r"
  show ?thesis
  proof (cases "find_root 0 (groups m) i")
    case None
    with f have "findGroupById_loop 0 (groups m) i = Some r"
      by (simp add: findGroupById_def)
    moreover from findGroupById_valid_aux(2) [of 0 "groups m" i]
    have "0 = length ([] :: group list) \<longrightarrow> findGroupById_loop 0 (groups m) i = Some r \<longrightarrow>
        g_id (snd r) = i \<and> deref ([] @ groups m) (fst r) = Some (snd r)"
      by blast
    ultimately show ?thesis by simp
  next
    case (Some a)
    with f have "find_root (length ([] :: group list)) (groups m) i = Some r"
      by (simp add: findGroupById_def)
    from find_root_valid [OF this] show ?thesis by simp
  qed
qed

lemma deref_modify: "deref gs p = Some g \<Longrightarrow> deref (modify p f gs) p = Some (f g)"
proof (induction gs p rule: deref.induct)
  case (1 gs)
  then show ?case by simp
next
  case (2 gs k)
  then show ?case by (auto split: if_splits)
next
  case (3 gs k q p)
  then show ?case by (auto split: if_splits)
qed

lemma modify_modify:
  "modify p f (modify p h gs) = modify p (\<lambda>g. f (h g)) gs"
proof (induction p h gs rule: modify.induct)
  case (1 f gs)
  then show ?case by simp
next
  case (2 k f gs)
  then show ?case by simp
next
  case (3 k q p f gs)
  then show ?case by (cases "gs ! k") simp
qed





lemma g_bookmarks_set_bookmarks [simp]: "g_bookmarks (set_bookmarks bs g) = bs"
  by (cases g) simp

lemma Group_removeBookmark_fst: "fst (Group_removeBookmark i g) = has_id i (g_bookmarks g)"
  by (simp add: Group_removeBookmark_def Let_def filter_shorter has_id_def list_ex_iff)

lemma removeBookmark_loop_find:
  "removeBookmark_loop rs i gs =
     (case find (\<lambda>r. has_id i (g_bookmarks (snd r))) rs of
        None \<Rightarrow> (False, gs)
      | Some r \<Rightarrow> (True, modify (fst r) (\<lambda>g. snd (Group_removeBookmark i g)) gs))"
  by (induction rs) (simp_all add: Group_removeBookmark_fst)

lemma find_has_id: "(find (\<lambda>b. b_id b = i) bs = None) = (\<not> has_id i bs)"
  by (auto simp: find_None_iff has_id_def list_ex_iff)

lemma findBookmarkById_loop_find:
  "findBookmarkById_loop rs i =
     (case find (\<lambda>r. has_id i (g_bookmarks (snd r))) rs of
        None \<Rightarrow> None
      | Some r \<Rightarrow> find (\<lambda>b. b_id b = i) (g_bookmarks (snd r)))"
proof (induction rs)
  case Nil
  show ?case by simp
next
  case (Cons r rs)
  show ?case
  proof (cases "has_id i (g_bookmarks (snd r))")
    case True
    then obtain b where "find (\<lambda>b. b_id b = i) (g_bookmarks (snd r)) = Some b"
      using find_has_id [of i "g_bookmarks (snd r)"] by auto
    with True show ?thesis by simp
  next
    case False
    then have "find (\<lambda>b. b_id b = i) (g_bookmarks (snd r)) = None"
      by (simp add: find_has_id)
    with False Cons show ?thesis by simp
  qed
qed

lemma getAllGroups_cong: "groups m' = groups m \<Longrightarrow> getAllGroups m' = getAllGroups m"
  by (simp add: getAllGroups_def)

lemma findGroupById_cong: "groups m' = groups m \<Longrightarrow> findGroupById m' i = findGroupById m i"
  unfolding findGroupById_def by (erule ssubst) (rule refl)


lemma removeBookmark_nested:
  assumes "\<not> has_id i (bookmarks m)"
  shows "removeBookmark i m =
    (case holder m i of
       None \<Rightarrow> (False, m)
     | Some r \<Rightarrow> (True, saveState (fire
         (m\<lparr> groups := modify (fst r) (\<lambda>g. snd (Group_removeBookmark i g)) (groups m) \<rparr>))))"
proof -
  from assms have same: "filter (\<lambda>b. b_id b \<noteq> i) (bookmarks m) = bookmarks m"
    by (simp add: filter_id_conv has_id_def list_ex_iff)
  have g: "getAllGroups (m\<lparr>bookmarks := bookmarks m\<rparr>) = getAllGroups m"
    by (simp add: getAllGroups_def)
  show ?thesis
    by (cases "holder m i")
      (simp_all add: removeBookmark_def Let_def same g removeBookmark_loop_find holder_def)
qed


lemma findBookmarkById_nested:
  "\<not> has_id i (bookmarks m) \<Longrightarrow>
     findBookmarkById m i =
       (case holder m i of None \<Rightarrow> None
        | Some r \<Rightarrow> find (\<lambda>b. b_id b = i) (g_bookmarks (snd r)))"
  using find_has_id [of i "bookmarks m"]
  by (simp add: findBookmarkById_def findBookmarkById_loop_find holder_def)

lemma find_Some_id: "find (\<lambda>b. b_id b = i) bs = Some b \<Longrightarrow> b_id b = i \<and> b \<in> set bs"
  by (auto simp: find_Some_iff)

lemma skeleton_bookmark_ops [simp]:
  "skeleton_of (Group_addBookmark b g) = skeleton_of g"
  "skeleton_of (snd (Group_removeBookmark i g)) = skeleton_of g"
  by (cases g; simp add: Group_addBookmark_def Group_removeBookmark_def Let_def)+

lemma trace_notify:
  "trace (saveState (fire m)) = trace m @ notified m"
  by (simp add: saveState_def fire_def notified_def exportData_def Let_def)

lemma notified_cong:
  "bookmarks m' = bookmarks m \<Longrightarrow> groups m' = groups m \<Longrightarrow> syncEnabled m' = syncEnabled m
     \<Longrightarrow> notified m' = notified m"
  by (simp add: notified_def exportData_def)

lemma sync_notify [simp]: "syncEnabled (saveState (fire m)) = syncEnabled m"
  by (simp add: saveState_def fire_def Let_def)

lemma find_target_after:
  assumes t: "findGroupById m tid = Some (p, g)"
    and gs': "groups m' = modify p f (groups m)"
    and sk: "\<And>x. skeleton_of (f x) = skeleton_of x"
  shows "findGroupById m' tid = Some (p, f g)"
proof -
  from t have d: "deref (groups m) p = Some g" using findGroupById_valid by fastforce
  have "map skeleton_of (groups m') = map skeleton_of (groups m)"
    unfolding gs' using sk by (rule skeleton_modify)
  then have "map_option fst (findGroupById m' tid) = map_option fst (findGroupById m tid)"
    by (rule findGroupById_skeleton)
  with t obtain g' where f': "findGroupById m' tid = Some (p, g')"
    by (cases "findGroupById m' tid") auto
  then have "deref (groups m') p = Some g'" using findGroupById_valid by fastforce
  moreover from d have "deref (groups m') p = Some (f g)"
    unfolding gs' by (rule deref_modify)
  ultimately show ?thesis using f' by simp
qed




lemma fires_append: "fires (xs @ ys) = fires xs + fires ys"
  by (induction xs rule: fires.induct) simp_all

lemma fires_notified: "fires (notified m) = 1"
  by (simp add: notified_def)

lemma trace_notified: "trace (saveState (fire m)) = trace m @ notified (saveState (fire m))"
proof -
  have "notified (saveState (fire m)) = notified m"
    by (rule notified_cong) simp_all
  then show ?thesis by (simp add: trace_notify)
qed

lemma Group_addBookmark_new:
  "\<not> has_id (b_id b) (g_bookmarks g) \<Longrightarrow> Group_addBookmark b g = set_bookmarks (g_bookmarks g @ [b]) g"
  by (simp add: Group_addBookmark_def has_id_def)

lemma has_id_filter: "\<not> has_id i (filter (\<lambda>x. b_id x \<noteq> i) bs)"
  by (simp add: has_id_def list_ex_iff)

lemma set_bookmarks_twice [simp]: "set_bookmarks bs (set_bookmarks bs' g) = set_bookmarks bs g"
  by (cases g) simp

lemma count_after_filter:
  "b_id b = i \<Longrightarrow> length (filter (\<lambda>x. b_id x = i) (filter (\<lambda>x. b_id x \<noteq> i) bs @ [b])) = 1"
  by (induction bs) simp_all


section \<open>Moving a bookmark\<close>



lemma g_groups_bookmark_ops [simp]:
  "g_groups (Group_addBookmark b g) = g_groups g"
  "g_groups (snd (Group_removeBookmark i g)) = g_groups g"
  by (cases g; simp add: Group_addBookmark_def Group_removeBookmark_def Let_def)+












text \<open>
  C10. The bookmark is not at the root, the first group that holds a bookmark with its
  id is the group at place \<open>p\<close>, and the target id resolves to that same group. Then
  \<^verbatim>\<open>moveBookmarkToGroup\<close> returns true; the group's bookmarks afterwards are the old ones
  without that id, followed by the bookmark: one bookmark with the id, at the end. The
  change event fires, in fact twice: once in the nested \<^verbatim>\<open>removeBookmark\<close>, once at the
  end.
\<close>

theorem moveBookmarkToGroup_within_target:
  assumes nr: "\<not> has_id bid (bookmarks m)"
    and h: "holder m bid = Some (p, g)"
    and t: "findGroupById m tid = Some (p, g)"
  shows "\<exists>b. find (\<lambda>x. b_id x = bid) (g_bookmarks g) = Some b
    \<and> fst (moveBookmarkToGroup bid tid m) = True
    \<and> findGroupById (snd (moveBookmarkToGroup bid tid m)) tid
        = Some (p, set_bookmarks (filter (\<lambda>x. b_id x \<noteq> bid) (g_bookmarks g) @ [b]) g)
    \<and> length (filter (\<lambda>x. b_id x = bid)
                (filter (\<lambda>x. b_id x \<noteq> bid) (g_bookmarks g) @ [b])) = 1
    \<and> trace (snd (moveBookmarkToGroup bid tid m))
        = trace m @ notified (snd (removeBookmark bid m))
            @ notified (snd (moveBookmarkToGroup bid tid m))
    \<and> fires (trace (snd (moveBookmarkToGroup bid tid m))) = fires (trace m) + 2"
proof -
  from h obtain k where "has_id bid (g_bookmarks (snd (getAllGroups m ! k)))"
    and "(p, g) = getAllGroups m ! k"
    unfolding holder_def find_Some_iff by blast
  then have "has_id bid (g_bookmarks g)" by (metis snd_conv)
  then obtain b where fb: "find (\<lambda>x. b_id x = bid) (g_bookmarks g) = Some b"
    using find_has_id [of bid "g_bookmarks g"] by auto
  from find_Some_id [OF fb] have bid: "b_id b = bid" by simp
  from nr h fb have f: "findBookmarkById m bid = Some b"
    by (simp add: findBookmarkById_nested)
  let ?rm = "\<lambda>x. snd (Group_removeBookmark bid x)"
  let ?m1 = "snd (removeBookmark bid m)"
  let ?m' = "snd (moveBookmarkToGroup bid tid m)"
  from nr h have m1: "?m1 = saveState (fire (m\<lparr> groups := modify p ?rm (groups m) \<rparr>))"
    by (simp add: removeBookmark_nested)
  from f t have mv: "moveBookmarkToGroup bid tid m
      = (True, saveState (fire (?m1\<lparr> groups := modify p (Group_addBookmark b) (groups ?m1) \<rparr>)))"
    by (simp add: moveBookmarkToGroup_def Let_def)
  then have r: "fst (moveBookmarkToGroup bid tid m) = True" by simp
  from mv m1 have gs: "groups ?m' = modify p (\<lambda>x. Group_addBookmark b (?rm x)) (groups m)"
    by (simp add: modify_modify)
  from t gs have "findGroupById ?m' tid = Some (p, Group_addBookmark b (?rm g))"
    by (rule find_target_after) simp
  moreover have "Group_addBookmark b (?rm g)
      = set_bookmarks (filter (\<lambda>x. b_id x \<noteq> bid) (g_bookmarks g) @ [b]) g"
    using bid has_id_filter [of bid "g_bookmarks g"]
    by (simp add: Group_addBookmark_new Group_removeBookmark_def Let_def)
  ultimately have target: "findGroupById ?m' tid
      = Some (p, set_bookmarks (filter (\<lambda>x. b_id x \<noteq> bid) (g_bookmarks g) @ [b]) g)"
    by simp
  from bid have one: "length (filter (\<lambda>x. b_id x = bid)
      (filter (\<lambda>x. b_id x \<noteq> bid) (g_bookmarks g) @ [b])) = 1"
    by (rule count_after_filter)
  have t1: "trace ?m1 = trace m @ notified ?m1"
    unfolding m1 using trace_notified [of "m\<lparr> groups := modify p ?rm (groups m) \<rparr>"] by simp
  have "trace ?m' = trace ?m1 @ notified ?m'"
    using trace_notified [of "?m1\<lparr> groups := modify p (Group_addBookmark b) (groups ?m1) \<rparr>"]
    unfolding mv by simp
  with t1 have tr: "trace ?m' = trace m @ notified ?m1 @ notified ?m'" by simp
  then have "fires (trace ?m') = fires (trace m) + 2"
    by (simp add: fires_append fires_notified)
  with fb r target one tr show ?thesis by blast
qed

theorem moveBookmarkToGroup_within_target_witness:
  "\<not> has_id ''bookmark-11-2'' (bookmarks deep_manager)
   \<and> holder deep_manager ''bookmark-11-2'' = Some ([0, 0, 0], deep_d)
   \<and> findGroupById deep_manager ''group-4-4'' = Some ([0, 0, 0], deep_d)
   \<and> fst (moveBookmarkToGroup ''bookmark-11-2'' ''group-4-4'' deep_manager) = True
   \<and> findGroupById (snd (moveBookmarkToGroup ''bookmark-11-2'' ''group-4-4'' deep_manager))
         ''group-4-4''
       = Some ([0, 0, 0], set_bookmarks [mark_w, mark_y] deep_d)
   \<and> fires (trace (snd (moveBookmarkToGroup ''bookmark-11-2'' ''group-4-4'' deep_manager))) = 2"
proof -
  have r: "\<not> has_id ''bookmark-11-2'' (bookmarks deep_manager)"
    by (simp add: has_id_def deep_manager_def)
  have h: "holder deep_manager ''bookmark-11-2'' = Some ([0, 0, 0], deep_d)"
    by (simp add: holder_def has_id_def getAllGroups_def nested_under_def deep_manager_def
        deep_a_def deep_b_def deep_c_def deep_d_def mark_x_def mark_y_def mark_w_def)
  have t: "findGroupById deep_manager ''group-4-4'' = Some ([0, 0, 0], deep_d)"
    by (simp add: deep_manager_def findGroupById_def deep_a_def deep_b_def deep_c_def deep_d_def
        nested_under_def)
  have f: "find (\<lambda>x. b_id x = ''bookmark-11-2'') (g_bookmarks deep_d) = Some mark_y"
    "filter (\<lambda>x. b_id x \<noteq> ''bookmark-11-2'') (g_bookmarks deep_d) = [mark_w]"
    by (simp_all add: deep_d_def mark_y_def mark_w_def)
  have e: "trace deep_manager = []"
    by (simp add: deep_manager_def)
  from moveBookmarkToGroup_within_target [OF r h t] r h t f e
  show ?thesis
    by (simp add: fires_append fires_notified)
qed

section \<open>Change notification\<close>














section \<open>Serialization round trip\<close>

lemma Bookmark_new_inv: "Bookmark_inv (Bookmark_new e u n d)"
  by (auto simp: Bookmark_inv_def Bookmark_new_def split: option.splits)

lemma Bookmark_fromJSON_inv: "Bookmark_fromJSON e j = Inr b \<Longrightarrow> Bookmark_inv b"
  by (auto simp: Bookmark_inv_def Bookmark_fromJSON_def Bookmark_new_def
      split: option.splits sum.splits if_splits)

lemma Date_roundtrip: "Date_new (toISOString d) = d"
  by (cases d) simp

lemma Bookmark_roundtrip: "Bookmark_inv b \<Longrightarrow> Bookmark_fromJSON e (Bookmark_toJSON b) = Inr b"
  by (auto simp: Bookmark_inv_def Bookmark_fromJSON_def Bookmark_toJSON_def Bookmark_new_def Date_roundtrip)

lemma mapE_Bookmark_roundtrip:
  "list_all Bookmark_inv bs \<Longrightarrow> mapE (Bookmark_fromJSON e) (map Bookmark_toJSON bs) = Inr bs"
  by (induction bs) (simp_all add: Bookmark_roundtrip)

lemma set_parent_reparent: "set_parent q (reparent p g) = reparent q g"
  by (cases g) simp

lemma children_roundtrip:
  "(\<And>c. c \<in> set gs \<Longrightarrow> Group_fromJSON e (Group_toJSON c) = Inr (reparent None c))
   \<Longrightarrow> fromJSON_children e i (map Group_toJSON gs) = Inr (map (reparent (Some i)) gs)"
  by (induction gs) (simp_all add: set_parent_reparent)

lemma Group_roundtrip: "Group_inv g \<Longrightarrow> Group_fromJSON e (Group_toJSON g) = Inr (reparent None g)"
proof (induction g)
  case (BookmarkGroup i n d bs gs p c)
  have "\<And>x. x \<in> set gs \<Longrightarrow> Group_fromJSON e (Group_toJSON x) = Inr (reparent None x)"
    using BookmarkGroup by (simp add: list_all_iff)
  then have "fromJSON_children e i (map Group_toJSON gs) = Inr (map (reparent (Some i)) gs)"
    by (rule children_roundtrip)
  moreover have "mapE (Bookmark_fromJSON e) (map Bookmark_toJSON bs) = Inr bs"
    using BookmarkGroup.prems by (simp add: mapE_Bookmark_roundtrip)
  ultimately show ?case by (simp add: Date_roundtrip)
qed

lemma erase_reparent: "erase_parents (reparent p g) = erase_parents g"
  by (induction g arbitrary: p) simp

lemma g_parent_reparent: "g_parent (reparent p g) = p" "g_id (reparent p g) = g_id g"
  by (cases g; simp)+

lemma linked_reparent: "linked (reparent p g)"
  by (induction g arbitrary: p) (simp add: list_all_iff g_parent_reparent)

lemma reparent_id: "linked g \<Longrightarrow> reparent (g_parent g) g = g"
proof (induction g)
  case (BookmarkGroup i n d bs gs p c)
  have "map (reparent (Some i)) gs = gs"
  proof (rule map_idI)
    fix x assume x: "x \<in> set gs"
    with BookmarkGroup.prems have "g_parent x = Some i" "linked x" by (auto simp: list_all_iff)
    with BookmarkGroup.IH [OF x] show "reparent (Some i) x = x" by simp
  qed
  then show ?case by simp
qed


lemma set_parent_inv: "Group_inv (set_parent p g) = Group_inv g"
  by (cases g) simp

lemma mapE_inv:
  "mapE f xs = Inr ys \<Longrightarrow> (\<And>x y. f x = Inr y \<Longrightarrow> P y) \<Longrightarrow> list_all P ys"
  by (induction xs arbitrary: ys) (auto split: sum.splits)

lemma Group_fromJSON_inv_aux:
  "(\<forall>g. Group_fromJSON e j = Inr g \<longrightarrow> Group_inv g)"
  "(\<forall>gs. fromJSON_children e i js = Inr gs \<longrightarrow> list_all Group_inv gs)"
proof (induction e j and e i js rule: Group_fromJSON_fromJSON_children.induct)
  case (3 e i n d bs gs c)
  show ?case
  proof (intro allI impI)
    fix g assume a: "Group_fromJSON e (GroupJSON i n d (Some bs) (Some gs) c) = Inr g"
    then obtain bms chs where b: "mapE (Bookmark_fromJSON e) bs = Inr bms"
      and c: "fromJSON_children e i gs = Inr chs"
      and g: "g = BookmarkGroup i n (case d of None \<Rightarrow> [] | Some x \<Rightarrow> x) bms chs None (Date_new c)"
      by (auto split: sum.splits)
    from b have "list_all Bookmark_inv bms"
      by (rule mapE_inv) (rule Bookmark_fromJSON_inv)
    moreover from 3 b c have "list_all Group_inv chs" by simp
    ultimately show "Group_inv g" by (simp add: g)
  qed
qed (auto split: sum.splits simp: set_parent_inv)

lemma Group_fromJSON_inv: "Group_fromJSON e j = Inr g \<Longrightarrow> Group_inv g"
  using Group_fromJSON_inv_aux(1) by blast

text \<open>
  C2. Serializing and deserializing a bookmark gives the bookmark back. For a group tree
  it gives \<open>reparent None g\<close>: the same ids, names, descriptions, timestamps, bookmarks
  and nesting as \<open>g\<close> (equal once the parent references are erased), no parent at the
  top, and every child at every depth pointing at its reconstructed parent; a tree that
  was linked so already comes back as it was. The hypothesis is what the constructor
  establishes, as the last three conjuncts say: every bookmark and every tree that
  \<^verbatim>\<open>new Bookmark\<close> or \<^verbatim>\<open>fromJSON\<close> makes has it.
\<close>

theorem serialize_deserialize_roundtrip:
  "(Bookmark_inv b \<longrightarrow> Bookmark_fromJSON e (Bookmark_toJSON b) = Inr b)
   \<and> (Group_inv g \<longrightarrow>
        Group_fromJSON e (Group_toJSON g) = Inr (reparent None g)
        \<and> erase_parents (reparent None g) = erase_parents g
        \<and> g_parent (reparent None g) = None
        \<and> linked (reparent None g)
        \<and> (linked g \<and> g_parent g = None \<longrightarrow> reparent None g = g))
   \<and> Bookmark_inv (Bookmark_new e' u n d)
   \<and> (Bookmark_fromJSON e' j = Inr b' \<longrightarrow> Bookmark_inv b')
   \<and> (Group_fromJSON e' gj = Inr g' \<longrightarrow> Group_inv g')"
  using reparent_id [of g]
  by (auto simp: Bookmark_roundtrip Group_roundtrip erase_reparent g_parent_reparent linked_reparent
      Bookmark_new_inv Bookmark_fromJSON_inv Group_fromJSON_inv)

theorem serialize_deserialize_roundtrip_witness:
  "Bookmark_inv mark_x \<and> Group_inv deep_a
   \<and> Bookmark_fromJSON same_tick (Bookmark_toJSON mark_x) = Inr mark_x
   \<and> linked deep_a \<and> g_parent deep_a = None
   \<and> Group_fromJSON same_tick (Group_toJSON deep_a) = Inr deep_a
   \<and> (\<exists>b. Bookmark_fromJSON same_tick good_record = Inr b \<and> Bookmark_inv b)
   \<and> (\<exists>g. Group_fromJSON same_tick (Group_toJSON deep_a) = Inr g \<and> Group_inv g)"
proof -
  have b: "Bookmark_inv mark_x"
    by (simp add: Bookmark_inv_def mark_x_def)
  have g: "Group_inv deep_a"
    by (simp add: Bookmark_inv_def mark_x_def mark_y_def mark_w_def deep_a_def deep_b_def
        deep_c_def deep_d_def)
  have l: "linked deep_a \<and> g_parent deep_a = None"
    by (simp add: deep_a_def deep_b_def deep_c_def deep_d_def)
  obtain r where r: "Bookmark_fromJSON same_tick good_record = Inr r"
    by (simp add: Bookmark_fromJSON_def good_record_def)
  from serialize_deserialize_roundtrip
         [where b = mark_x and e = same_tick and g = deep_a and e' = same_tick
            and j = good_record and b' = r and gj = "Group_toJSON deep_a" and g' = deep_a]
       b g l r
  show ?thesis
    by simp
qed

section \<open>Restoring and importing\<close>

text \<open>
  C5, as the code has it. With no stored document the manager starts with an empty
  forest and reports nothing. With a stored document whose deserialization fails the
  failure is logged and shown to the user, nothing is thrown, and the root groups are
  empty. The root bookmarks are empty when the failure is in the bookmark records (or
  there are none); when every bookmark record deserializes and a group record fails, the
  bookmarks already assigned stay.
\<close>

theorem loadState_absent_or_failing:
  "BookmarkManager_new e None sync
     = \<lparr> groups = [], bookmarks = [], trace = [], globalState = None, syncEnabled = sync \<rparr>
   \<and> (d_bookmarks data = Some bs \<and> mapE (Bookmark_fromJSON e) bs = Inl err \<longrightarrow>
        BookmarkManager_new e (Some data) sync
          = \<lparr> groups = [], bookmarks = [], trace = load_report,
              globalState = Some data, syncEnabled = sync \<rparr>)
   \<and> (d_bookmarks data = None \<and> d_groups data = Some gs
        \<and> mapE (Group_fromJSON e) gs = Inl err \<longrightarrow>
        BookmarkManager_new e (Some data) sync
          = \<lparr> groups = [], bookmarks = [], trace = load_report,
              globalState = Some data, syncEnabled = sync \<rparr>)
   \<and> (d_bookmarks data = Some bs \<and> mapE (Bookmark_fromJSON e) bs = Inr loaded
        \<and> d_groups data = Some gs \<and> mapE (Group_fromJSON e) gs = Inl err \<longrightarrow>
        BookmarkManager_new e (Some data) sync
          = \<lparr> groups = [], bookmarks = loaded, trace = load_report,
              globalState = Some data, syncEnabled = sync \<rparr>)"
  by (simp add: BookmarkManager_new_def loadState_def load_failed_def load_report_def)

theorem loadState_absent_or_failing_witness:
  "mapE (Bookmark_fromJSON same_tick) [good_record, unparsable_record] = Inl UriError
   \<and> BookmarkManager_new same_tick
       (Some \<lparr> d_bookmarks = Some [good_record, unparsable_record], d_groups = Some [] \<rparr>) True
     = \<lparr> groups = [], bookmarks = [], trace = load_report,
         globalState = Some \<lparr> d_bookmarks = Some [good_record, unparsable_record], d_groups = Some [] \<rparr>,
         syncEnabled = True \<rparr>
   \<and> mapE (Group_fromJSON same_tick) (the (d_groups half_broken)) = Inl TypeError
   \<and> BookmarkManager_new same_tick (Some (half_broken\<lparr> d_bookmarks := None \<rparr>)) True
     = \<lparr> groups = [], bookmarks = [], trace = load_report,
         globalState = Some (half_broken\<lparr> d_bookmarks := None \<rparr>), syncEnabled = True \<rparr>
   \<and> mapE (Bookmark_fromJSON same_tick) (the (d_bookmarks half_broken))
     = Inr [\<lparr> b_id = ''bookmark-1-1'', b_uri = Uri ''file:///a.txt'', b_name = ''a.txt'',
              b_description = [], b_createdAt = Date 1 \<rparr>]
   \<and> BookmarkManager_new same_tick (Some half_broken) True
     = \<lparr> groups = [],
         bookmarks = [\<lparr> b_id = ''bookmark-1-1'', b_uri = Uri ''file:///a.txt'', b_name = ''a.txt'',
                        b_description = [], b_createdAt = Date 1 \<rparr>],
         trace = load_report, globalState = Some half_broken, syncEnabled = True \<rparr>"
proof -
  let ?loaded = "[\<lparr> b_id = ''bookmark-1-1'', b_uri = Uri ''file:///a.txt'', b_name = ''a.txt'',
                     b_description = [], b_createdAt = Date 1 \<rparr>]"
  let ?broken = "[GroupJSON ''group-3-3'' ''G'' None None (Some []) (ISO 3)]"
  have h: "mapE (Bookmark_fromJSON same_tick) [good_record, unparsable_record] = Inl UriError"
    by (simp add: Bookmark_fromJSON_def good_record_def unparsable_record_def)
  have g: "d_groups half_broken = Some ?broken"
    "mapE (Group_fromJSON same_tick) ?broken = Inl TypeError"
    by (simp_all add: half_broken_def)
  have b: "d_bookmarks half_broken = Some [good_record]"
    "mapE (Bookmark_fromJSON same_tick) [good_record] = Inr ?loaded"
    by (simp_all add: half_broken_def good_record_def Bookmark_fromJSON_def Bookmark_new_def)
  from loadState_absent_or_failing
         [where e = same_tick and sync = True and err = UriError
            and data = "\<lparr> d_bookmarks = Some [good_record, unparsable_record], d_groups = Some [] \<rparr>"
            and bs = "[good_record, unparsable_record]"]
       loadState_absent_or_failing
         [where e = same_tick and sync = True and err = TypeError
            and data = "half_broken\<lparr> d_bookmarks := None \<rparr>" and gs = ?broken]
       loadState_absent_or_failing
         [where e = same_tick and sync = True and err = TypeError
            and data = half_broken and bs = "[good_record]" and gs = ?broken
            and loaded = ?loaded]
       h g b
  show ?thesis
    by simp
qed

text \<open>
  C5 as stated fails: the group record of \<open>half_broken\<close> does not deserialize, and the
  manager restored from it has a root bookmark.
\<close>

theorem loadState_keeps_bookmarks_counterexample:
  "mapE (Group_fromJSON same_tick) (the (d_groups half_broken)) = Inl TypeError
   \<and> map b_id (bookmarks (BookmarkManager_new same_tick (Some half_broken) True))
       = [''bookmark-1-1'']
   \<and> groups (BookmarkManager_new same_tick (Some half_broken) True) = []
   \<and> trace (BookmarkManager_new same_tick (Some half_broken) True) = load_report"
  by (simp add: half_broken_def good_record_def BookmarkManager_new_def loadState_def
      load_failed_def load_report_def Bookmark_fromJSON_def Bookmark_new_def)







section \<open>Identifiers\<close>

text \<open>
  C9 at a failing input: two \<^verbatim>\<open>addBookmark\<close> calls that read the same millisecond and
  draw the same number give two bookmarks one id, so the ids of the forest are not
  distinct.
\<close>

theorem addBookmark_same_tick_same_id:
  "map b_id (getAllBookmarks two_adds)
     = [''bookmark-1700000000000-7'', ''bookmark-1700000000000-7'']
   \<and> map b_uri (getAllBookmarks two_adds) = [Uri ''file:///a.txt'', Uri ''file:///b.txt'']
   \<and> \<not> distinct (map b_id (getAllBookmarks two_adds))"
  by (simp add: two_adds_def same_tick_def BookmarkManager_new_def loadState_def
      addBookmark_def truthy_def fire_def saveState_def getAllBookmarks_def getAllGroups_def
      Bookmark_new_def decimal.simps digit_def Let_def)

end
